theory Spec2Isabelle
  imports Complex_Main
begin

section \<open>JavaScript values\<close>

text \<open>
  A JavaScript string is a sequence of UTF-16 code units. A string whose content the
  code inspects (the watermark text, the values in \<^verbatim>\<open>localStorage\<close>) is modelled as the
  list of its code units, each a natural number; a string the code only compares with a
  literal or passes on (device names, paths, colours) is a plain \<open>string\<close>. Numbers are
  IEEE doubles in the source. Counters are modelled by exact integers, with the
  non-finite values a number can take as constructors of their own. Geometry is modelled
  by reals: exactly where a property is decided by a margin that rounding cannot move, and
  with every operation rounded to a double by \<open>fl\<close> where a property turns on the last bit.
\<close>

type_synonym jsstring = "nat list"

definition js :: "string \<Rightarrow> jsstring" where
  "js s = map of_char s"

datatype jsnum = Fin int | NaN | Infinity | NegInfinity

text \<open>ECMAScript WhiteSpace and LineTerminator code points, as stripped by
  \<^verbatim>\<open>String.prototype.trim\<close> and skipped by \<^verbatim>\<open>parseInt\<close>.\<close>

definition isWhiteSpace :: "nat \<Rightarrow> bool" where
  "isWhiteSpace c \<longleftrightarrow>
     c = 9 \<or> c = 10 \<or> c = 11 \<or> c = 12 \<or> c = 13 \<or> c = 32 \<or> c = 160 \<or> c = 5760 \<or>
     (8192 \<le> c \<and> c \<le> 8202) \<or> c = 8232 \<or> c = 8233 \<or> c = 8239 \<or> c = 8287 \<or>
     c = 12288 \<or> c = 65279"

definition trimStart :: "jsstring \<Rightarrow> jsstring" where
  "trimStart s = dropWhile isWhiteSpace s"

definition trim :: "jsstring \<Rightarrow> jsstring" where
  "trim s = rev (dropWhile isWhiteSpace (rev (dropWhile isWhiteSpace s)))"

definition isDigit :: "nat \<Rightarrow> bool" where
  "isDigit c \<longleftrightarrow> 48 \<le> c \<and> c \<le> 57"

definition digitsValue :: "jsstring \<Rightarrow> int" where
  "digitsValue Z = foldl (\<lambda>a d. a * 10 + (int d - 48)) 0 Z"

text \<open>\<^verbatim>\<open>parseInt(s, 10)\<close>: skip leading white space, read an optional sign, then the
  longest prefix of decimal digits; no digit at all gives NaN.\<close>

definition parseInt :: "jsstring \<Rightarrow> jsnum" where
  "parseInt inputString =
     (let S = trimStart inputString;
          sign = (if S \<noteq> [] \<and> hd S = 45 then - 1 else 1);
          S' = (if S \<noteq> [] \<and> (hd S = 43 \<or> hd S = 45) then tl S else S);
          Z = takeWhile isDigit S'
      in if Z = [] then NaN else Fin (sign * digitsValue Z))"

fun String_nat :: "nat \<Rightarrow> jsstring" where
  "String_nat n = (if n < 10 then [48 + n] else String_nat (n div 10) @ [48 + n mod 10])"

declare String_nat.simps [simp del]

text \<open>\<^verbatim>\<open>String(n)\<close> for a number.\<close>

fun ToString :: "jsnum \<Rightarrow> jsstring" where
  "ToString (Fin i) = (if i < 0 then 45 # String_nat (nat (- i)) else String_nat (nat i))"
| "ToString NaN = js ''NaN''"
| "ToString Infinity = js ''Infinity''"
| "ToString NegInfinity = js ''-Infinity''"

definition padStart :: "nat \<Rightarrow> nat \<Rightarrow> jsstring \<Rightarrow> jsstring" where
  "padStart targetLength c s = replicate (targetLength - length s) c @ s"

fun js_add :: "jsnum \<Rightarrow> jsnum \<Rightarrow> jsnum" where
  "js_add (Fin a) (Fin b) = Fin (a + b)"
| "js_add NaN _ = NaN"
| "js_add _ NaN = NaN"
| "js_add Infinity NegInfinity = NaN"
| "js_add NegInfinity Infinity = NaN"
| "js_add Infinity _ = Infinity"
| "js_add _ Infinity = Infinity"
| "js_add NegInfinity _ = NegInfinity"
| "js_add _ NegInfinity = NegInfinity"

fun js_neg :: "jsnum \<Rightarrow> jsnum" where
  "js_neg (Fin a) = Fin (- a)"
| "js_neg NaN = NaN"
| "js_neg Infinity = NegInfinity"
| "js_neg NegInfinity = Infinity"

definition js_sub :: "jsnum \<Rightarrow> jsnum \<Rightarrow> jsnum" where
  "js_sub a b = js_add a (js_neg b)"

text \<open>The comparison \<^verbatim>\<open>a >= b\<close>: false as soon as one side is NaN.\<close>

fun js_ge :: "jsnum \<Rightarrow> jsnum \<Rightarrow> bool" where
  "js_ge NaN _ = False"
| "js_ge _ NaN = False"
| "js_ge (Fin a) (Fin b) = (b \<le> a)"
| "js_ge Infinity _ = True"
| "js_ge _ NegInfinity = True"
| "js_ge _ _ = False"

text \<open>\<^verbatim>\<open>Math.max(a, b)\<close>: NaN as soon as one argument is NaN.\<close>

definition Math_max :: "jsnum \<Rightarrow> jsnum \<Rightarrow> jsnum" where
  "Math_max a b = (if a = NaN \<or> b = NaN then NaN else if js_ge a b then a else b)"


section \<open>Double arithmetic\<close>

text \<open>
  A double is written as the real number it holds. An arithmetic operation of the source
  gives the double nearest to the exact result, ties going to the even neighbour
  (IEEE 754 binary64, the only rounding JavaScript has). \<open>expo x\<close> is the exponent of the
  binade of \<open>x\<close>, found by halving or doubling and held between \<open>-1022\<close> (below it the
  doubles are subnormal and equally spaced) and \<open>1023\<close>; the doubles around \<open>x\<close> are the
  integer multiples of \<open>2 powi (expo x - 52)\<close>, and \<open>fl x\<close> is the nearest of them. A result
  of magnitude \<open>2 ^ 1024\<close> or more is no double: there the source has an infinity.
\<close>

definition roundEven :: "real \<Rightarrow> int" where
  "roundEven y =
     (let n = \<lfloor>y\<rfloor>; r = y - of_int n
      in if r < 1 / 2 then n
         else if 1 / 2 < r then n + 1
         else if even n then n else n + 1)"

function binade_up :: "real \<Rightarrow> int \<Rightarrow> int" where
  "binade_up x e = (if 2 \<le> x \<and> e < 1023 then binade_up (x / 2) (e + 1) else e)"
  by pat_completeness auto
termination
  by (relation "measure (\<lambda>(x, e). nat (1023 - e))") auto

function binade_down :: "real \<Rightarrow> int \<Rightarrow> int" where
  "binade_down x e = (if x < 1 \<and> - 1022 < e then binade_down (x * 2) (e - 1) else e)"
  by pat_completeness auto
termination
  by (relation "measure (\<lambda>(x, e). nat (e + 1022))") auto

declare binade_up.simps [simp del]
declare binade_down.simps [simp del]

definition expo :: "real \<Rightarrow> int" where
  "expo x = (if 1 \<le> \<bar>x\<bar> then binade_up \<bar>x\<bar> 0 else binade_down \<bar>x\<bar> 0)"

definition fl :: "real \<Rightarrow> real" where
  "fl x = (let q = 2 powi (expo x - 52) in of_int (roundEven (x / q)) * q)"


section \<open>Free tier bookkeeping (utils/freebie.ts)\<close>

text \<open>The keys of \<^verbatim>\<open>STORAGE_KEYS\<close>; \<open>key_name\<close> gives the string each one stands for.\<close>

datatype storage_key = USES | RESET_DATE | PAID | CUSTOMER_ID | SUBSCRIPTION_ID | LAST_VERIFIED

fun key_name :: "storage_key \<Rightarrow> string" where
  "key_name USES = ''screenclip_uses''"
| "key_name RESET_DATE = ''screenclip_reset_date''"
| "key_name PAID = ''screenclip_paid''"
| "key_name CUSTOMER_ID = ''screenclip_customer_id''"
| "key_name SUBSCRIPTION_ID = ''screenclip_subscription_id''"
| "key_name LAST_VERIFIED = ''screenclip_last_verified''"

type_synonym storage = "storage_key \<rightharpoonup> jsstring"

text \<open>Where the module runs: on the server \<^verbatim>\<open>window\<close> is undefined and there is no
  \<^verbatim>\<open>localStorage\<close>; in the browser there is one.\<close>

datatype host = Server | Browser storage

text \<open>The part of \<^verbatim>\<open>new Date()\<close> that \<^verbatim>\<open>getCurrentMonth\<close> reads.\<close>

record date =
  fullYear :: int
  month :: nat

definition FREE_LIMIT :: int where
  "FREE_LIMIT = 3"

definition getCurrentMonth :: "date \<Rightarrow> jsstring" where
  "getCurrentMonth now =
     ToString (Fin (fullYear now)) @ js ''-'' @
     padStart 2 48 (ToString (Fin (int (month now) + 1)))"

fun isPaidUser :: "host \<Rightarrow> bool" where
  "isPaidUser Server = False"
| "isPaidUser (Browser localStorage) = (localStorage PAID = Some (js ''true''))"

fun getUsageCount :: "date \<Rightarrow> host \<Rightarrow> jsnum \<times> host" where
  "getUsageCount now Server = (Fin 0, Server)"
| "getUsageCount now (Browser localStorage) =
     (let resetDate = localStorage RESET_DATE;
          currentMonth = getCurrentMonth now
      in if resetDate \<noteq> Some currentMonth
         then (Fin 0, Browser (localStorage(RESET_DATE \<mapsto> currentMonth, USES \<mapsto> js ''0'')))
         else (case localStorage USES of
                 None \<Rightarrow> (Fin 0, Browser localStorage)
               | Some uses \<Rightarrow>
                   (if uses = [] then Fin 0 else parseInt uses, Browser localStorage)))"

definition hasHitFreeLimit :: "date \<Rightarrow> host \<Rightarrow> bool \<times> host" where
  "hasHitFreeLimit now h =
     (if isPaidUser h then (False, h)
      else (case getUsageCount now h of (c, h') \<Rightarrow> (js_ge c (Fin FREE_LIMIT), h')))"

fun incrementUsage :: "date \<Rightarrow> host \<Rightarrow> host" where
  "incrementUsage now Server = Server"
| "incrementUsage now (Browser localStorage) =
     (case getUsageCount now (Browser localStorage) of
        (currentCount, Browser ls') \<Rightarrow> Browser (ls'(USES \<mapsto> ToString (js_add currentCount (Fin 1))))
      | (currentCount, Server) \<Rightarrow> Server)"

definition getRemainingExports :: "date \<Rightarrow> host \<Rightarrow> jsnum \<times> host" where
  "getRemainingExports now h =
     (if isPaidUser h then (Infinity, h)
      else (case getUsageCount now h of
              (c, h') \<Rightarrow> (Math_max (Fin 0) (js_sub (Fin FREE_LIMIT) c), h')))"



section \<open>Compositing (utils/canvas.ts)\<close>

subsection \<open>Data\<close>

datatype template_kind = Gradient | Solid | Device

text \<open>\<^verbatim>\<open>Template\<close> with the fields of \<^verbatim>\<open>config\<close> the renderer reads. \<open>config_device\<close>
  and \<open>config_orientation\<close> are the empty string when the field is absent: the code
  only tests them for truthiness and for equality with a literal.\<close>

record Template =
  template_type :: template_kind
  config_device :: string
  config_orientation :: string
  config_colors :: "string list"
  config_angle :: real
  config_color :: string

record ImageTransform =
  transform_scale :: real
  transform_x :: real
  transform_y :: real

text \<open>The user's \<^verbatim>\<open>HTMLImageElement\<close>: its \<^verbatim>\<open>width\<close> and \<^verbatim>\<open>height\<close> are non-negative integers.\<close>

record Image =
  image_width :: nat
  image_height :: nat

record DeviceFrameTemplate =
  frame :: string
  mask :: string
  screen_x :: real
  screen_y :: real
  screen_width :: real
  screen_height :: real
  frameSize_width :: real
  frameSize_height :: real

text \<open>A loaded frame: the bitmap (named by its \<^verbatim>\<open>src\<close>) and its descriptor.\<close>

record deviceFrame =
  frame_image :: string
  frame_template :: DeviceFrameTemplate

type_synonym cache = "string \<rightharpoonup> deviceFrame"

text \<open>What the drawing context is asked to do, in call order. Device ornamentation drawn
  procedurally is one operation per drawing function. \<open>RotateQuarterTurns n\<close> is
  \<^verbatim>\<open>ctx.rotate(n * Math.PI / 2)\<close>.\<close>

datatype image_source = UserImage | FrameImage string

text \<open>A fill style. \<open>AngledGradient a w h stops\<close> is the linear gradient from \<open>(0, 0)\<close> to
  \<open>(w * cos (a * pi / 180), h * sin (a * pi / 180))\<close>: the angle is kept, not the end point.\<close>

datatype fillStyle =
    Color string
  | LinearGradient real real real real "(real \<times> string) list"
  | AngledGradient real real real "(real \<times> string) list"

datatype draw_op =
    Save
  | Restore
  | Translate real real
  | RotateQuarterTurns real
  | ClipRoundRect real real real real real
  | ClipRect real real real real
  | FillRect fillStyle real real real real
  | SetShadow string real real
  | DrawImage image_source real real real real
  | PhoneFrame real real real real string
  | ScreenReflection real real real real
  | MacBookFrame real real real real
  | BrowserFrame real real real real
  | FillText jsstring real real string string
  | StrokeText jsstring real real string string

text \<open>The canvas after a render: its size, the drawing calls made, and the screen size
  the render stored into \<^verbatim>\<open>template.config._realScreenDimensions\<close> (if it did).\<close>

record render =
  canvas_width :: real
  canvas_height :: real
  realScreenDimensions :: "(real \<times> real) option"
  ops :: "draw_op list"

datatype error = FetchRejected | JsonRejected | ImageError | NonFiniteColorStop

subsection \<open>Loading a device frame\<close>

text \<open>A settled promise.\<close>

datatype 'a promise = Rejected | Resolved 'a

record response =
  ok :: bool
  json :: "DeviceFrameTemplate promise"

text \<open>The network as the loader sees it: what \<^verbatim>\<open>fetch\<close> of a URL settles to, and whether
  an image with a given \<^verbatim>\<open>src\<close> fires \<^verbatim>\<open>onload\<close> (or else \<^verbatim>\<open>onerror\<close>).\<close>

record network =
  fetch :: "string \<Rightarrow> response promise"
  imageLoads :: "string \<Rightarrow> bool"

text \<open>\<^verbatim>\<open>s.replace(pat, rep)\<close> with a string pattern: the first occurrence only.\<close>

fun replace :: "string \<Rightarrow> string \<Rightarrow> string \<Rightarrow> string" where
  "replace pat rep [] = (if pat = [] then rep else [])"
| "replace pat rep (c # cs) =
     (if take (length pat) (c # cs) = pat then rep @ drop (length pat) (c # cs)
      else c # replace pat rep cs)"

text \<open>The body of the \<^verbatim>\<open>try\<close> block: \<open>Inl\<close> is an exception thrown inside it,
  \<open>Inr None\<close> the early \<^verbatim>\<open>return null\<close>.\<close>

definition loadDeviceFrame_try :: "network \<Rightarrow> string \<Rightarrow> error + deviceFrame option" where
  "loadDeviceFrame_try net framePath =
     (case fetch net (replace ''.png'' ''.json'' framePath) of
        Rejected \<Rightarrow> Inl FetchRejected
      | Resolved templateResponse \<Rightarrow>
          if \<not> ok templateResponse then Inr None
          else (case json templateResponse of
                  Rejected \<Rightarrow> Inl JsonRejected
                | Resolved template \<Rightarrow>
                    if imageLoads net framePath
                    then Inr (Some \<lparr>frame_image = framePath, frame_template = template\<rparr>)
                    else Inl ImageError))"

text \<open>\<open>Inl\<close> in the result would be an exception leaving the loader; the \<^verbatim>\<open>catch\<close>
  clause turns every exception of the \<^verbatim>\<open>try\<close> block into \<^verbatim>\<open>null\<close>.\<close>

definition loadDeviceFrame ::
  "network \<Rightarrow> cache \<Rightarrow> string \<Rightarrow> (error + deviceFrame option) \<times> cache" where
  "loadDeviceFrame net deviceFrameCache framePath =
     (case deviceFrameCache framePath of
        Some cached \<Rightarrow> (Inr (Some cached), deviceFrameCache)
      | None \<Rightarrow>
          (case loadDeviceFrame_try net framePath of
             Inl err \<Rightarrow> (Inr None, deviceFrameCache)
           | Inr None \<Rightarrow> (Inr None, deviceFrameCache)
           | Inr (Some loaded) \<Rightarrow> (Inr (Some loaded), deviceFrameCache(framePath \<mapsto> loaded))))"

subsection \<open>Drawing\<close>

definition padding :: real where
  "padding = 100"

text \<open>Assigning to \<^verbatim>\<open>canvas.width\<close> or \<^verbatim>\<open>canvas.height\<close>: the attribute is an
  \<^verbatim>\<open>unsigned long\<close>, so the number is truncated to an integer modulo \<open>2^32\<close>, and a
  value above \<open>2^31 - 1\<close> is replaced by the attribute's default.\<close>

definition canvas_dim :: "real \<Rightarrow> real \<Rightarrow> real" where
  "canvas_dim dflt v =
     (let n = (if v < 0 then \<lceil>v\<rceil> else \<lfloor>v\<rfloor>) mod 2 ^ 32
      in if n \<le> 2147483647 then of_int n else dflt)"

definition set_width :: "real \<Rightarrow> real" where
  "set_width v = canvas_dim 300 v"

definition set_height :: "real \<Rightarrow> real" where
  "set_height v = canvas_dim 150 v"

text \<open>\<open>drawBackground\<close>: the fill of the whole canvas. A gradient of exactly one colour
  computes the stop offset \<open>0/0\<close>, which \<^verbatim>\<open>addColorStop\<close> rejects with an exception.\<close>

definition drawBackground :: "Template \<Rightarrow> real \<Rightarrow> real \<Rightarrow> error + draw_op" where
  "drawBackground template cw ch =
     (if template_type template = Gradient then
        (if length (config_colors template) = 1 then Inl NonFiniteColorStop
         else Inr (FillRect
           (AngledGradient (config_angle template) cw ch
              (map (\<lambda>(index, color). (real index / (real (length (config_colors template)) - 1), color))
                   (enumerate 0 (config_colors template))))
           0 0 cw ch))
      else if template_type template = Solid then
        Inr (FillRect (Color (config_color template)) 0 0 cw ch)
      else
        Inr (FillRect (LinearGradient 0 0 cw ch [(0, ''#667eea''), (1, ''#764ba2'')]) 0 0 cw ch))"

definition drawImageInDeviceScreen ::
  "Image \<Rightarrow> real \<Rightarrow> real \<Rightarrow> real \<Rightarrow> real \<Rightarrow> ImageTransform \<Rightarrow> real \<Rightarrow> draw_op list" where
  "drawImageInDeviceScreen img screenX screenY screenWidth screenHeight transform cornerRadius =
     (let baseScale = min (screenWidth / real (image_width img))
                          (screenHeight / real (image_height img));
          finalScale = baseScale * transform_scale transform;
          scaledWidth = real (image_width img) * finalScale;
          scaledHeight = real (image_height img) * finalScale;
          screenCenterX = screenX + screenWidth / 2;
          screenCenterY = screenY + screenHeight / 2;
          imageCenterX = screenCenterX + transform_x transform;
          imageCenterY = screenCenterY + transform_y transform;
          imageX = imageCenterX - scaledWidth / 2;
          imageY = imageCenterY - scaledHeight / 2
      in [Save,
          ClipRoundRect screenX screenY screenWidth screenHeight cornerRadius,
          FillRect (Color ''#ffffff'') screenX screenY screenWidth screenHeight,
          DrawImage UserImage imageX imageY scaledWidth scaledHeight,
          Restore])"

definition drawImageInPhoneReal ::
  "Image \<Rightarrow> real \<Rightarrow> real \<Rightarrow> real \<Rightarrow> real \<Rightarrow> ImageTransform \<Rightarrow> string \<Rightarrow> draw_op list" where
  "drawImageInPhoneReal img screenX screenY screenWidth screenHeight transform orientation =
     (let screenCornerRadius = 37;
          baseScale = min (screenWidth / real (image_width img))
                          (screenHeight / real (image_height img));
          finalScale = baseScale * transform_scale transform;
          scaledWidth = real (image_width img) * finalScale;
          scaledHeight = real (image_height img) * finalScale;
          screenCenterX = screenX + screenWidth / 2;
          screenCenterY = screenY + screenHeight / 2;
          imageCenterX = screenCenterX + transform_x transform;
          imageCenterY = screenCenterY + transform_y transform;
          imageX = imageCenterX - scaledWidth / 2;
          imageY = imageCenterY - scaledHeight / 2
      in [Save,
          ClipRoundRect screenX screenY screenWidth screenHeight screenCornerRadius,
          FillRect (Color ''#ffffff'') screenX screenY screenWidth screenHeight,
          DrawImage UserImage imageX imageY scaledWidth scaledHeight,
          Restore])"

text \<open>\<open>drawImageInPhoneReal\<close> above computes in exact arithmetic. The same function with
  every arithmetic operation rounded as the engine rounds it; the width and height of
  the image are integers and need no rounding.\<close>

definition drawImageInPhoneReal_double ::
  "Image \<Rightarrow> real \<Rightarrow> real \<Rightarrow> real \<Rightarrow> real \<Rightarrow> ImageTransform \<Rightarrow> string \<Rightarrow> draw_op list" where
  "drawImageInPhoneReal_double img screenX screenY screenWidth screenHeight transform orientation =
     (let screenCornerRadius = 37;
          baseScale = min (fl (screenWidth / real (image_width img)))
                          (fl (screenHeight / real (image_height img)));
          finalScale = fl (baseScale * transform_scale transform);
          scaledWidth = fl (real (image_width img) * finalScale);
          scaledHeight = fl (real (image_height img) * finalScale);
          screenCenterX = fl (screenX + fl (screenWidth / 2));
          screenCenterY = fl (screenY + fl (screenHeight / 2));
          imageCenterX = fl (screenCenterX + transform_x transform);
          imageCenterY = fl (screenCenterY + transform_y transform);
          imageX = fl (imageCenterX - fl (scaledWidth / 2));
          imageY = fl (imageCenterY - fl (scaledHeight / 2))
      in [Save,
          ClipRoundRect screenX screenY screenWidth screenHeight screenCornerRadius,
          FillRect (Color ''#ffffff'') screenX screenY screenWidth screenHeight,
          DrawImage UserImage imageX imageY scaledWidth scaledHeight,
          Restore])"

definition drawImageInPhone ::
  "Image \<Rightarrow> real \<Rightarrow> real \<Rightarrow> real \<Rightarrow> real \<Rightarrow> ImageTransform \<Rightarrow> string \<Rightarrow> draw_op list" where
  "drawImageInPhone img centerX centerY phoneWidth phoneHeight transform orientation =
     (let screenX = centerX - phoneWidth / 2;
          screenY = centerY - phoneHeight / 2;
          screenWidth = phoneWidth;
          screenHeight = phoneHeight;
          cornerRadius = 37;
          baseScale = min (screenWidth / real (image_width img))
                          (screenHeight / real (image_height img));
          finalScale = baseScale * transform_scale transform;
          scaledWidth = real (image_width img) * finalScale;
          scaledHeight = real (image_height img) * finalScale;
          imageCenterX = centerX + transform_x transform;
          imageCenterY = centerY + transform_y transform;
          imageX = imageCenterX - scaledWidth / 2;
          imageY = imageCenterY - scaledHeight / 2
      in [Save,
          ClipRoundRect screenX screenY screenWidth screenHeight cornerRadius,
          FillRect (Color ''#ffffff'') screenX screenY screenWidth screenHeight,
          DrawImage UserImage imageX imageY scaledWidth scaledHeight,
          Restore,
          ScreenReflection screenX screenY screenWidth screenHeight])"

text \<open>\<open>addWatermark\<close>: each text call is recorded with its anchor point, the
  \<^verbatim>\<open>textAlign\<close> and the fill or stroke style in force. The condition
  \<^verbatim>\<open>customText && customText.trim() !== ""\<close> is truthiness of the string and then
  non-emptiness of the trimmed string.\<close>

definition addWatermark :: "real \<Rightarrow> real \<Rightarrow> jsstring \<Rightarrow> bool \<Rightarrow> draw_op list" where
  "addWatermark cw ch customText isPaid =
     (if \<not> isPaid
      then [FillText (js ''AppShot Free'') (cw - 30) (ch - 30) ''right'' ''rgba(255, 255, 255, 0.35)'']
      else []) @
     (if customText \<noteq> [] \<and> trim customText \<noteq> []
      then [StrokeText customText (cw / 2) (ch - 30) ''center'' ''rgba(0, 0, 0, 0.8)'',
            FillText customText (cw / 2) (ch - 30) ''center'' ''rgba(255, 255, 255, 0.95)'']
      else [])"


subsection \<open>applyTemplate\<close>

text \<open>The rotation formula of the landscape phone branch: a screen rectangle
  \<open>(sx, sy, sw, sh)\<close> inside a frame \<open>(fw, fh)\<close> is mapped into a frame drawn at size
  \<open>(W, H)\<close>. The branch adds \<open>frameLeft\<close> and \<open>frameTop\<close> to the position.\<close>

definition rotateRect ::
  "real \<times> real \<times> real \<times> real \<Rightarrow> real \<times> real \<Rightarrow> real \<times> real \<Rightarrow> real \<times> real \<times> real \<times> real" where
  "rotateRect r f d =
     (case (r, f, d) of ((origSX, origSY, origSW, origSH), (origFW, origFH), (canvasWidth, canvasHeight)) \<Rightarrow>
        ((origSY / origFH) * canvasWidth,
         ((origFW - origSX - origSW) / origFW) * canvasHeight,
         (origSH / origFH) * canvasWidth,
         (origSW / origFW) * canvasHeight))"

text \<open>The branches of \<open>applyTemplate\<close>, one definition each. A branch gives the canvas
  size it sets, the screen size it stores, and its drawing calls between the background
  fill and the watermark.\<close>

definition phoneReal :: "deviceFrame \<Rightarrow> Image \<Rightarrow> string \<Rightarrow> ImageTransform \<Rightarrow> render" where
  "phoneReal deviceFrame img orientation imageTransform =
     (let ft = frame_template deviceFrame;
          displayScale = (if orientation = ''portrait'' then 0.22 else 0.28);
          canvasWidth = (if orientation = ''portrait'' then frameSize_width ft * displayScale
                         else frameSize_height ft * displayScale);
          canvasHeight = (if orientation = ''portrait'' then frameSize_height ft * displayScale
                          else frameSize_width ft * displayScale);
          cw = set_width (canvasWidth + padding * 2);
          ch = set_height (canvasHeight + padding * 2)
      in if orientation = ''portrait'' then
           (let screenX = padding + (screen_x ft * displayScale);
                screenY = padding + (screen_y ft * displayScale);
                screenWidth = screen_width ft * displayScale;
                screenHeight = screen_height ft * displayScale
            in \<lparr>canvas_width = cw, canvas_height = ch,
                realScreenDimensions = Some (screenWidth, screenHeight),
                ops = drawImageInPhoneReal img screenX screenY screenWidth screenHeight
                        imageTransform orientation @
                      [DrawImage (FrameImage (frame_image deviceFrame))
                         padding padding canvasWidth canvasHeight]\<rparr>)
         else
           (let centerX = cw / 2;
                centerY = ch / 2;
                frameLeft = (cw - canvasWidth) / 2;
                frameTop = (ch - canvasHeight) / 2
            in (case rotateRect (screen_x ft, screen_y ft, screen_width ft, screen_height ft)
                       (frameSize_width ft, frameSize_height ft) (canvasWidth, canvasHeight) of
                  (rx, ry, screenWidth, screenHeight) \<Rightarrow>
                    (let screenX = frameLeft + rx;
                         screenY = frameTop + ry;
                         origW = frameSize_width ft * displayScale;
                         origH = frameSize_height ft * displayScale
                     in \<lparr>canvas_width = cw, canvas_height = ch,
                         realScreenDimensions = Some (screenWidth, screenHeight),
                         ops = drawImageInPhoneReal img screenX screenY screenWidth screenHeight
                                 imageTransform orientation @
                               [Save, Translate centerX centerY, RotateQuarterTurns 1,
                                DrawImage (FrameImage (frame_image deviceFrame))
                                  (- origW / 2) (- origH / 2) origW origH,
                                Restore]\<rparr>))))"

definition phoneFallback :: "Image \<Rightarrow> string \<Rightarrow> ImageTransform \<Rightarrow> render" where
  "phoneFallback img orientation imageTransform =
     (let phoneWidth = (if orientation = ''portrait'' then 380 else 780);
          phoneHeight = (if orientation = ''portrait'' then 780 else 380);
          cw = set_width (phoneWidth + padding * 2 + 100);
          ch = set_height (phoneHeight + padding * 2 + 100)
      in \<lparr>canvas_width = cw, canvas_height = ch,
          realScreenDimensions = Some (phoneWidth, phoneHeight),
          ops = PhoneFrame (cw / 2) (ch / 2) phoneWidth phoneHeight orientation #
                drawImageInPhone img (cw / 2) (ch / 2) phoneWidth phoneHeight
                  imageTransform orientation\<rparr>)"

definition ipadReal :: "deviceFrame \<Rightarrow> Image \<Rightarrow> ImageTransform \<Rightarrow> render" where
  "ipadReal deviceFrame img imageTransform =
     (let ft = frame_template deviceFrame;
          displayScale = 0.35;
          canvasWidth = frameSize_width ft * displayScale;
          canvasHeight = frameSize_height ft * displayScale;
          cw = set_width (canvasWidth + padding * 2);
          ch = set_height (canvasHeight + padding * 2);
          screenX = padding + (screen_x ft * displayScale);
          screenY = padding + (screen_y ft * displayScale);
          screenWidth = screen_width ft * displayScale;
          screenHeight = screen_height ft * displayScale
      in \<lparr>canvas_width = cw, canvas_height = ch,
          realScreenDimensions = Some (screenWidth, screenHeight),
          ops = drawImageInDeviceScreen img screenX screenY screenWidth screenHeight
                  imageTransform 40 @
                [DrawImage (FrameImage (frame_image deviceFrame))
                   padding padding canvasWidth canvasHeight]\<rparr>)"

definition ipadFallback :: "Image \<Rightarrow> ImageTransform \<Rightarrow> render" where
  "ipadFallback img imageTransform =
     (let ipadWidth = 1024;
          ipadHeight = 768;
          cw = set_width (ipadWidth + padding * 2);
          ch = set_height (ipadHeight + padding * 2);
          x0 = padding;
          y0 = padding;
          baseScale = min (ipadWidth / real (image_width img)) (ipadHeight / real (image_height img));
          scaledWidth = real (image_width img) * baseScale * transform_scale imageTransform;
          scaledHeight = real (image_height img) * baseScale * transform_scale imageTransform;
          imageX = x0 + (ipadWidth - scaledWidth) / 2 + transform_x imageTransform;
          imageY = y0 + (ipadHeight - scaledHeight) / 2 + transform_y imageTransform
      in \<lparr>canvas_width = cw, canvas_height = ch,
          realScreenDimensions = Some (ipadWidth, ipadHeight),
          ops = [FillRect (Color ''#000000'') x0 y0 ipadWidth ipadHeight,
                 DrawImage UserImage imageX imageY scaledWidth scaledHeight]\<rparr>)"

definition macbook :: "Image \<Rightarrow> ImageTransform \<Rightarrow> render" where
  "macbook img imageTransform =
     (let macbookScreenW = 1280;
          macbookScreenH = 800;
          mbBezelTop = 28;
          mbBezelSide = 14;
          mbBezelBottom = 14;
          mbLidW = macbookScreenW + mbBezelSide * 2;
          mbLidH = macbookScreenH + mbBezelTop + mbBezelBottom;
          cw = set_width (mbLidW + padding * 2 + 80);
          ch = set_height (mbLidH + padding * 2 + 80);
          macCenterX = cw / 2;
          macCenterY = ch / 2;
          macLidX = macCenterX - mbLidW / 2;
          macLidY = macCenterY - mbLidH / 2 - 20;
          screenX = macLidX + mbBezelSide;
          screenY = macLidY + mbBezelTop;
          baseScale = min (macbookScreenW / real (image_width img))
                          (macbookScreenH / real (image_height img));
          scaledWidth = real (image_width img) * baseScale * transform_scale imageTransform;
          scaledHeight = real (image_height img) * baseScale * transform_scale imageTransform;
          imageX = screenX + (macbookScreenW - scaledWidth) / 2 + transform_x imageTransform;
          imageY = screenY + (macbookScreenH - scaledHeight) / 2 + transform_y imageTransform
      in \<lparr>canvas_width = cw, canvas_height = ch,
          realScreenDimensions = Some (macbookScreenW, macbookScreenH),
          ops = [MacBookFrame macCenterX macCenterY macbookScreenW macbookScreenH,
                 Save,
                 ClipRoundRect screenX screenY macbookScreenW macbookScreenH 2,
                 FillRect (Color ''#000000'') screenX screenY macbookScreenW macbookScreenH,
                 DrawImage UserImage imageX imageY scaledWidth scaledHeight,
                 Restore]\<rparr>)"

definition browserWindow :: "Image \<Rightarrow> ImageTransform \<Rightarrow> render" where
  "browserWindow img imageTransform =
     (let browserWidth = 1200;
          browserHeight = 675;
          browserTitleBar = 40;
          cw = set_width (browserWidth + padding * 2);
          ch = set_height (browserHeight + browserTitleBar + padding * 2);
          windowX = padding;
          windowY = padding;
          baseScale = min (browserWidth / real (image_width img))
                          (browserHeight / real (image_height img));
          scaledWidth = real (image_width img) * baseScale * transform_scale imageTransform;
          scaledHeight = real (image_height img) * baseScale * transform_scale imageTransform;
          imageX = windowX + (browserWidth - scaledWidth) / 2 + transform_x imageTransform;
          imageY = windowY + 40 + (browserHeight - scaledHeight) / 2 + transform_y imageTransform
      in \<lparr>canvas_width = cw, canvas_height = ch,
          realScreenDimensions = Some (browserWidth, browserHeight),
          ops = [BrowserFrame windowX windowY browserWidth browserHeight,
                 Save,
                 ClipRect windowX (windowY + 40) browserWidth browserHeight,
                 FillRect (Color ''#000000'') windowX (windowY + 40) browserWidth browserHeight,
                 DrawImage UserImage imageX imageY scaledWidth scaledHeight,
                 Restore]\<rparr>)"

definition flatBackground :: "Image \<Rightarrow> render" where
  "flatBackground img =
     (let maxWidth = 1600;
          scale = min (maxWidth / real (image_width img)) 1;
          scaledWidth = real (image_width img) * scale;
          scaledHeight = real (image_height img) * scale;
          cw = set_width (scaledWidth + padding * 2);
          ch = set_height (scaledHeight + padding * 2);
          imageX = padding;
          imageY = padding
      in \<lparr>canvas_width = cw, canvas_height = ch,
          realScreenDimensions = None,
          ops = [SetShadow ''rgba(0, 0, 0, 0.3)'' 40 20,
                 Save,
                 ClipRoundRect imageX imageY scaledWidth scaledHeight 12,
                 DrawImage UserImage imageX imageY scaledWidth scaledHeight,
                 Restore,
                 SetShadow ''transparent'' 0 0]\<rparr>)"

text \<open>What every branch does around its own drawing calls: \<open>drawBackground\<close> on the
  sized canvas first, \<open>addWatermark\<close> last. An exception of \<open>drawBackground\<close> leaves
  \<open>applyTemplate\<close>.\<close>

definition composite :: "Template \<Rightarrow> render \<Rightarrow> jsstring \<Rightarrow> bool \<Rightarrow> error + render option" where
  "composite template branch customWatermark isPaid =
     (case drawBackground template (canvas_width branch) (canvas_height branch) of
        Inl err \<Rightarrow> Inl err
      | Inr background \<Rightarrow>
          Inr (Some (branch\<lparr>ops := background # ops branch @
                       addWatermark (canvas_width branch) (canvas_height branch)
                         customWatermark isPaid\<rparr>)))"

definition orientation_of :: "Template \<Rightarrow> string" where
  "orientation_of template =
     (if config_orientation template = [] then ''portrait'' else config_orientation template)"

text \<open>\<open>applyTemplate\<close>. \<open>hasContext\<close> says whether \<^verbatim>\<open>canvas.getContext("2d")\<close> gives a
  context; without one the function returns at once (\<open>Inr None\<close>) and draws nothing.
  It returns the frame cache as it leaves it.\<close>

definition applyTemplate ::
  "network \<Rightarrow> cache \<Rightarrow> bool \<Rightarrow> Image \<Rightarrow> Template \<Rightarrow> jsstring \<Rightarrow> ImageTransform \<Rightarrow> bool \<Rightarrow>
     (error + render option) \<times> cache" where
  "applyTemplate net deviceFrameCache hasContext img template customWatermark imageTransform isPaid =
     (if \<not> hasContext then (Inr None, deviceFrameCache)
      else if template_type template = Device then
        (if config_device template = ''phone'' then
           (case loadDeviceFrame net deviceFrameCache ''/device-frames/iphone-16-pro-max-black.png'' of
              (Inl err, c) \<Rightarrow> (Inl err, c)
            | (Inr (Some deviceFrame), c) \<Rightarrow>
                (composite template
                   (phoneReal deviceFrame img (orientation_of template) imageTransform)
                   customWatermark isPaid, c)
            | (Inr None, c) \<Rightarrow>
                (composite template
                   (phoneFallback img (orientation_of template) imageTransform)
                   customWatermark isPaid, c))
         else if config_device template = ''ipad'' then
           (case loadDeviceFrame net deviceFrameCache ''/device-frames/ipad-pro-13-landscape-silver.png'' of
              (Inl err, c) \<Rightarrow> (Inl err, c)
            | (Inr (Some deviceFrame), c) \<Rightarrow>
                (composite template (ipadReal deviceFrame img imageTransform)
                   customWatermark isPaid, c)
            | (Inr None, c) \<Rightarrow>
                (composite template (ipadFallback img imageTransform) customWatermark isPaid, c))
         else if config_device template = ''macbook'' then
           (composite template (macbook img imageTransform) customWatermark isPaid,
            deviceFrameCache)
         else
           (composite template (browserWindow img imageTransform) customWatermark isPaid,
            deviceFrameCache))
      else
        (composite template (flatBackground img) customWatermark isPaid, deviceFrameCache))"


section \<open>The editor's fill presets (components/ScreenshotEditor.tsx)\<close>

text \<open>The editor state the presets read and write. \<open>realScreenDimsRef\<close> holds the screen
  size the last render stored, if any.\<close>

record editor =
  loadedImage :: "Image option"
  selectedTemplate :: "Template option"
  imageTransform :: ImageTransform
  realScreenDimsRef :: "(real \<times> real) option"
  customWatermark :: jsstring
  isPaid :: bool

definition getScreenDimensions :: "editor \<Rightarrow> real \<times> real" where
  "getScreenDimensions ed =
     (case selectedTemplate ed of
        None \<Rightarrow> (0, 0)
      | Some t \<Rightarrow>
          if config_device t = [] then (0, 0)
          else (case realScreenDimsRef ed of
                  Some dims \<Rightarrow> dims
                | None \<Rightarrow>
                    if config_device t = ''phone'' then
                      (if orientation_of t = ''portrait'' then 380 else 780,
                       if orientation_of t = ''portrait'' then 780 else 380)
                    else if config_device t = ''ipad'' then (1024, 768)
                    else if config_device t = ''macbook'' then (1280, 800)
                    else if config_device t = ''browser'' then (1200, 675)
                    else (0, 0)))"

text \<open>\<open>applyFillTransform\<close> stores the transform and schedules a re-render with it. The
  result is the new editor state and what that re-render does (\<open>None\<close> when it is
  skipped). The extra \<^verbatim>\<open>config\<close> fields the editor adds to the template it renders are
  not read by the renderer.\<close>

definition applyFillTransform ::
  "network \<Rightarrow> cache \<Rightarrow> editor \<Rightarrow> ImageTransform \<Rightarrow>
     editor \<times> ((error + render option) \<times> cache) option" where
  "applyFillTransform net deviceFrameCache ed transform =
     (ed\<lparr>imageTransform := transform\<rparr>,
      (case (loadedImage ed, selectedTemplate ed) of
         (Some img, Some t) \<Rightarrow>
           Some (applyTemplate net deviceFrameCache True img t (customWatermark ed) transform
                   (isPaid ed))
       | _ \<Rightarrow> None))"

text \<open>The three presets. Each returns at once, changing nothing, when no device template
  is selected or no image is loaded.\<close>

definition handleFillScreen ::
  "network \<Rightarrow> cache \<Rightarrow> editor \<Rightarrow> editor \<times> ((error + render option) \<times> cache) option" where
  "handleFillScreen net deviceFrameCache ed =
     (case (selectedTemplate ed, loadedImage ed) of
        (Some t, Some img) \<Rightarrow>
          if config_device t = [] then (ed, None)
          else applyFillTransform net deviceFrameCache ed
                 \<lparr>transform_scale = 1, transform_x = 0, transform_y = 0\<rparr>
      | _ \<Rightarrow> (ed, None))"

definition handleFillHorizontal ::
  "network \<Rightarrow> cache \<Rightarrow> editor \<Rightarrow> editor \<times> ((error + render option) \<times> cache) option" where
  "handleFillHorizontal net deviceFrameCache ed =
     (case (selectedTemplate ed, loadedImage ed) of
        (Some t, Some img) \<Rightarrow>
          if config_device t = [] then (ed, None)
          else (case getScreenDimensions ed of
                  (sw, sh) \<Rightarrow>
                    (let coverScale = max (sw / real (image_width img)) (sh / real (image_height img));
                         widthScale = sw / real (image_width img);
                         relativeScale = widthScale / coverScale
                     in applyFillTransform net deviceFrameCache ed
                          \<lparr>transform_scale = relativeScale, transform_x = 0, transform_y = 0\<rparr>))
      | _ \<Rightarrow> (ed, None))"

definition handleFillVertical ::
  "network \<Rightarrow> cache \<Rightarrow> editor \<Rightarrow> editor \<times> ((error + render option) \<times> cache) option" where
  "handleFillVertical net deviceFrameCache ed =
     (case (selectedTemplate ed, loadedImage ed) of
        (Some t, Some img) \<Rightarrow>
          if config_device t = [] then (ed, None)
          else (case getScreenDimensions ed of
                  (sw, sh) \<Rightarrow>
                    (let coverScale = max (sw / real (image_width img)) (sh / real (image_height img));
                         heightScale = sh / real (image_height img);
                         relativeScale = heightScale / coverScale
                     in applyFillTransform net deviceFrameCache ed
                          \<lparr>transform_scale = relativeScale, transform_x = 0, transform_y = 0\<rparr>))
      | _ \<Rightarrow> (ed, None))"


section \<open>Notions used in the properties\<close>

text \<open>The rectangle of the user's image in a list of drawing calls.\<close>

fun drawnUserImage :: "draw_op list \<Rightarrow> (real \<times> real \<times> real \<times> real) option" where
  "drawnUserImage [] = None"
| "drawnUserImage (DrawImage UserImage ix iy iw ih # rest) = Some (ix, iy, iw, ih)"
| "drawnUserImage (other # rest) = drawnUserImage rest"

text \<open>The width and height of the user's image in a list of drawing calls.\<close>

definition drawnSize :: "draw_op list \<Rightarrow> (real \<times> real) option" where
  "drawnSize calls =
     (case drawnUserImage calls of
        Some (ix, iy, iw, ih) \<Rightarrow> Some (iw, ih)
      | None \<Rightarrow> None)"

text \<open>The bitmap frames drawn by a list of drawing calls.\<close>

fun frameBitmaps :: "draw_op list \<Rightarrow> string list" where
  "frameBitmaps [] = []"
| "frameBitmaps (DrawImage (FrameImage src) ix iy iw ih # rest) = src # frameBitmaps rest"
| "frameBitmaps (other # rest) = frameBitmaps rest"

text \<open>Of a finished render: the screen size it stored and the rectangle it drew the
  user's image into.\<close>

definition screenAndImage ::
  "((error + render option) \<times> cache) option \<Rightarrow>
     ((real \<times> real) \<times> (real \<times> real \<times> real \<times> real)) option" where
  "screenAndImage res =
     (case res of
        Some (Inr (Some r), c) \<Rightarrow>
          (case (realScreenDimensions r, drawnUserImage (ops r)) of
             (Some dims, Some rect) \<Rightarrow> Some (dims, rect)
           | _ \<Rightarrow> None)
      | _ \<Rightarrow> None)"

text \<open>A returned count that is a number and not below zero.\<close>

fun nonNegative :: "jsnum \<Rightarrow> bool" where
  "nonNegative (Fin i) = (0 \<le> i)"
| "nonNegative NaN = False"
| "nonNegative Infinity = True"
| "nonNegative NegInfinity = False"

text \<open>The stored usage count is absent or a string of decimal digits.\<close>

definition usesWellFormed :: "storage \<Rightarrow> bool" where
  "usesWellFormed ls = (case ls USES of None \<Rightarrow> True | Some uses \<Rightarrow> list_all isDigit uses)"

text \<open>The asset behind a frame path cannot be had: the descriptor request fails or is
  answered with an error status, the descriptor does not decode, or the bitmap does not
  load.\<close>

definition assetUnavailable :: "network \<Rightarrow> string \<Rightarrow> bool" where
  "assetUnavailable net framePath =
     (case fetch net (replace ''.png'' ''.json'' framePath) of
        Rejected \<Rightarrow> True
      | Resolved templateResponse \<Rightarrow>
          (if ok templateResponse
           then (case json templateResponse of
                   Rejected \<Rightarrow> True
                 | Resolved template \<Rightarrow> \<not> imageLoads net framePath)
           else True))"

text \<open>The rotation by \<open>-90\<close> degrees, written after the specification's words (the
  source has the forward rotation only): the formula of \<open>rotateRect\<close> turned the other
  way, from the frame drawn at \<open>(W, H)\<close> back into the frame \<open>(fw, fh)\<close>.\<close>

definition rotateRectBack ::
  "real \<times> real \<times> real \<times> real \<Rightarrow> real \<times> real \<Rightarrow> real \<times> real \<Rightarrow> real \<times> real \<times> real \<times> real" where
  "rotateRectBack r d f =
     (case (r, d, f) of ((rx, ry, rw, rh), (canvasWidth, canvasHeight), (origFW, origFH)) \<Rightarrow>
        (((canvasHeight - ry - rh) / canvasHeight) * origFW,
         (rx / canvasWidth) * origFH,
         (rh / canvasHeight) * origFW,
         (rw / canvasWidth) * origFH))"


section \<open>Example inputs\<close>

definition sampleDescriptor :: DeviceFrameTemplate where
  "sampleDescriptor =
     \<lparr>frame = ''iphone-16-pro-max-black.png'', mask = ''iphone-16-pro-max-black-mask.png'',
      screen_x = 100, screen_y = 100, screen_width = 1320, screen_height = 2868,
      frameSize_width = 1520, frameSize_height = 3068\<rparr>"

definition networkUp :: network where
  "networkUp =
     \<lparr>fetch = (\<lambda>url. Resolved \<lparr>ok = True, json = Resolved sampleDescriptor\<rparr>),
      imageLoads = (\<lambda>src. True)\<rparr>"

definition networkDown :: network where
  "networkDown = \<lparr>fetch = (\<lambda>url. Rejected), imageLoads = (\<lambda>src. False)\<rparr>"

definition notFound :: network where
  "notFound =
     \<lparr>fetch = (\<lambda>url. Resolved \<lparr>ok = False, json = Rejected\<rparr>), imageLoads = (\<lambda>src. True)\<rparr>"

definition deviceTemplate :: "string \<Rightarrow> string \<Rightarrow> Template" where
  "deviceTemplate dev orientation =
     \<lparr>template_type = Device, config_device = dev, config_orientation = orientation,
      config_colors = [], config_angle = 0, config_color = []\<rparr>"

definition editing :: "Template \<Rightarrow> Image \<Rightarrow> (real \<times> real) option \<Rightarrow> editor" where
  "editing t img dims =
     \<lparr>loadedImage = Some img, selectedTemplate = Some t,
      imageTransform = \<lparr>transform_scale = 1, transform_x = 0, transform_y = 0\<rparr>,
      realScreenDimsRef = dims, customWatermark = [], isPaid = False\<rparr>"


section \<open>Properties of the double arithmetic\<close>

text \<open>Rounding to an integer stays within a half and never drops below an integer under
  its argument.\<close>

lemma roundEven_upper: "of_int (roundEven y) \<le> y + 1 / 2"
proof -
  have f1: "of_int \<lfloor>y\<rfloor> \<le> y" and f2: "y < of_int \<lfloor>y\<rfloor> + 1" by linarith+
  consider "y - of_int \<lfloor>y\<rfloor> < 1 / 2" | "1 / 2 < y - of_int \<lfloor>y\<rfloor>" | "y - of_int \<lfloor>y\<rfloor> = 1 / 2"
    by linarith
  then show ?thesis
  proof cases
    case 1
    then have r: "roundEven y = \<lfloor>y\<rfloor>" by (simp add: roundEven_def Let_def)
    show ?thesis unfolding r using f1 by linarith
  next
    case 2
    then have r: "roundEven y = \<lfloor>y\<rfloor> + 1" by (simp add: roundEven_def Let_def)
    show ?thesis unfolding r using 2 by simp
  next
    case 3
    then have "roundEven y = \<lfloor>y\<rfloor> \<or> roundEven y = \<lfloor>y\<rfloor> + 1"
      by (simp add: roundEven_def Let_def)
    then show ?thesis
    proof
      assume r: "roundEven y = \<lfloor>y\<rfloor>"
      show ?thesis unfolding r using f1 by linarith
    next
      assume r: "roundEven y = \<lfloor>y\<rfloor> + 1"
      show ?thesis unfolding r using 3 by simp
    qed
  qed
qed

lemma roundEven_ge: "of_int k \<le> y \<Longrightarrow> k \<le> roundEven y"
proof -
  assume "of_int k \<le> y"
  then have "k \<le> \<lfloor>y\<rfloor>" by (simp add: le_floor_iff)
  moreover have "\<lfloor>y\<rfloor> \<le> roundEven y" by (simp add: roundEven_def Let_def)
  ultimately show ?thesis by simp
qed

lemma roundEven_lower: "y - 1 / 2 \<le> of_int (roundEven y)"
proof -
  have f1: "of_int \<lfloor>y\<rfloor> \<le> y" and f2: "y < of_int \<lfloor>y\<rfloor> + 1" by linarith+
  consider "y - of_int \<lfloor>y\<rfloor> < 1 / 2" | "1 / 2 < y - of_int \<lfloor>y\<rfloor>" | "y - of_int \<lfloor>y\<rfloor> = 1 / 2"
    by linarith
  then show ?thesis
  proof cases
    case 1
    then have r: "roundEven y = \<lfloor>y\<rfloor>" by (simp add: roundEven_def Let_def)
    show ?thesis unfolding r using 1 by linarith
  next
    case 2
    then have r: "roundEven y = \<lfloor>y\<rfloor> + 1" by (simp add: roundEven_def Let_def)
    have "y - 1 / 2 \<le> of_int \<lfloor>y\<rfloor> + 1" using f2 by linarith
      then show ?thesis unfolding r by simp
  next
    case 3
    then have "roundEven y = \<lfloor>y\<rfloor> \<or> roundEven y = \<lfloor>y\<rfloor> + 1"
      by (simp add: roundEven_def Let_def)
    then show ?thesis
    proof
      assume r: "roundEven y = \<lfloor>y\<rfloor>"
      show ?thesis unfolding r using 3 by linarith
    next
      assume r: "roundEven y = \<lfloor>y\<rfloor> + 1"
      have "y - 1 / 2 \<le> of_int \<lfloor>y\<rfloor> + 1" using f2 by linarith
      then show ?thesis unfolding r by simp
    qed
  qed
qed

text \<open>The exponent search: it stays in range and brackets its argument by the powers of
  two of the binade it returns.\<close>

lemma powi_succ: "(2::real) powi (i + 1) = 2 * 2 powi i"
  by (simp add: power_int_add)

lemma binade_up_step: "2 \<le> x \<Longrightarrow> e < 1023 \<Longrightarrow> binade_up x e = binade_up (x / 2) (e + 1)"
  by (subst binade_up.simps) simp

lemma binade_up_stop: "\<not> (2 \<le> x \<and> e < 1023) \<Longrightarrow> binade_up x e = e"
  by (subst binade_up.simps) auto

lemma binade_down_step:
  "x < 1 \<Longrightarrow> - 1022 < e \<Longrightarrow> binade_down x e = binade_down (x * 2) (e - 1)"
  by (subst binade_down.simps) simp

lemma binade_down_stop: "\<not> (x < 1 \<and> - 1022 < e) \<Longrightarrow> binade_down x e = e"
  by (subst binade_down.simps) auto

lemma binade_up_ge: "e \<le> binade_up x e"
proof (induction x e rule: binade_up.induct)
  case (1 x e)
  show ?case
  proof (cases "2 \<le> x \<and> e < 1023")
    case True
    with 1 have "e + 1 \<le> binade_up (x / 2) (e + 1)" by simp
    with True show ?thesis by (simp add: binade_up_step)
  next
    case False
    then have "binade_up x e = e" by (rule binade_up_stop)
    then show ?thesis by simp
  qed
qed

lemma binade_up_lower: "1 \<le> x \<Longrightarrow> 2 powi (binade_up x e - e) \<le> x"
proof (induction x e rule: binade_up.induct)
  case (1 x e)
  show ?case
  proof (cases "2 \<le> x \<and> e < 1023")
    case True
    then have "1 \<le> x / 2" by simp
    with 1 True have ih: "2 powi (binade_up (x / 2) (e + 1) - (e + 1)) \<le> x / 2" by simp
    have "2 powi (binade_up (x / 2) (e + 1) - e) =
          (2::real) * 2 powi (binade_up (x / 2) (e + 1) - (e + 1))"
      using powi_succ [of "binade_up (x / 2) (e + 1) - (e + 1)"] by simp
    also have "\<dots> \<le> x" using ih by simp
    finally show ?thesis using True by (simp add: binade_up_step)
  next
    case False
    then have "binade_up x e = e" by (rule binade_up_stop)
    then show ?thesis using 1(2) by simp
  qed
qed

lemma binade_down_ge: "- 1022 \<le> e \<Longrightarrow> - 1022 \<le> binade_down x e"
proof (induction x e rule: binade_down.induct)
  case (1 x e)
  show ?case
  proof (cases "x < 1 \<and> - 1022 < e")
    case True
    with 1 have "- 1022 \<le> binade_down (x * 2) (e - 1)" by simp
    with True show ?thesis by (simp add: binade_down_step)
  next
    case False
    then have "binade_down x e = e" by (rule binade_down_stop)
    then show ?thesis using 1(2) by simp
  qed
qed

lemma binade_down_lower:
  "- 1022 \<le> e \<Longrightarrow> 2 powi (- 1022 - e) \<le> x \<Longrightarrow> 2 powi (binade_down x e - e) \<le> x"
proof (induction x e rule: binade_down.induct)
  case (1 x e)
  show ?case
  proof (cases "x < 1 \<and> - 1022 < e")
    case True
    have "2 powi (- 1022 - (e - 1)) = (2::real) * 2 powi (- 1022 - e)"
      using powi_succ [of "- 1022 - e"] by (simp add: algebra_simps)
    also have "\<dots> \<le> x * 2" using 1(3) by simp
    finally have pre: "2 powi (- 1022 - (e - 1)) \<le> x * 2" .
    from True have "- 1022 \<le> e - 1" by simp
    with 1(1) True pre have ih: "2 powi (binade_down (x * 2) (e - 1) - (e - 1)) \<le> x * 2"
      by simp
    have "(2::real) * 2 powi (binade_down (x * 2) (e - 1) - e) =
          2 powi (binade_down (x * 2) (e - 1) - (e - 1))"
      using powi_succ [of "binade_down (x * 2) (e - 1) - e"] by (simp add: algebra_simps)
    with ih have "2 powi (binade_down (x * 2) (e - 1) - e) \<le> x" by simp
    then show ?thesis using True by (simp add: binade_down_step)
  next
    case False
    then have stop: "binade_down x e = e" by (rule binade_down_stop)
    show ?thesis
    proof (cases "x < 1")
      case True
      with False 1(2) have "e = - 1022" by simp
      with 1(3) have "1 \<le> x" by simp
      with True show ?thesis by simp
    next
      case f: False
      then show ?thesis by (simp add: stop)
    qed
  qed
qed

lemma expo_ge: "- 1022 \<le> expo x"
proof (cases "1 \<le> \<bar>x\<bar>")
  case True
  have "0 \<le> binade_up \<bar>x\<bar> 0" by (rule binade_up_ge)
  with True show ?thesis by (simp add: expo_def)
next
  case False
  have "- 1022 \<le> binade_down \<bar>x\<bar> 0" by (rule binade_down_ge) simp
  with False show ?thesis by (simp add: expo_def)
qed

lemma expo_lower:
  assumes "2 powi (- 1022) \<le> x"
  shows "2 powi (expo x) \<le> x"
proof -
  have "(0::real) < 2 powi (- 1022)" by simp
  with assms have pos: "0 < x" by linarith
  show ?thesis
  proof (cases "1 \<le> x")
    case True
    then have "2 powi (binade_up x 0 - 0) \<le> x" by (rule binade_up_lower)
    with True pos show ?thesis by (simp add: expo_def)
  next
    case False
    have "2 powi (binade_down x 0 - 0) \<le> x"
      by (rule binade_down_lower) (use assms in simp_all)
    with False pos show ?thesis by (simp add: expo_def)
  qed
qed

lemma binade_up_upper: "x < 2 powi (1024 - e) \<Longrightarrow> x < 2 powi (binade_up x e - e + 1)"
proof (induction x e rule: binade_up.induct)
  case (1 x e)
  show ?case
  proof (cases "2 \<le> x \<and> e < 1023")
    case True
    have "2 powi (1024 - e) = (2::real) * 2 powi (1024 - (e + 1))"
      using powi_succ [of "1024 - (e + 1)"] by simp
    with 1(2) have "x / 2 < 2 powi (1024 - (e + 1))" by simp
    with 1(1) True have "x / 2 < 2 powi (binade_up (x / 2) (e + 1) - (e + 1) + 1)" by simp
    then have "x < 2 * 2 powi (binade_up (x / 2) (e + 1) - e)" by simp
    also have "\<dots> = 2 powi (binade_up (x / 2) (e + 1) - e + 1)"
      by (simp only: powi_succ)
    finally show ?thesis using True by (simp add: binade_up_step)
  next
    case False
    then have stop: "binade_up x e = e" by (rule binade_up_stop)
    have "x < 2"
    proof (cases "x < 2")
      case True
      then show ?thesis .
    next
      case f: False
      with False have "1023 \<le> e" by simp
      then have "(2::real) powi (1024 - e) \<le> 2 powi 1"
        by (intro power_int_increasing) auto
      with 1(2) show ?thesis by simp
    qed
    then show ?thesis by (simp add: stop)
  qed
qed

lemma binade_down_upper: "x < 2 \<Longrightarrow> x < 2 powi (binade_down x e - e + 1)"
proof (induction x e rule: binade_down.induct)
  case (1 x e)
  show ?case
  proof (cases "x < 1 \<and> - 1022 < e")
    case True
    then have "x * 2 < 2" by simp
    with 1(1) True have "x * 2 < 2 powi (binade_down (x * 2) (e - 1) - (e - 1) + 1)" by simp
    moreover have "2 powi (binade_down (x * 2) (e - 1) - (e - 1) + 1) =
        (2::real) * 2 powi (binade_down (x * 2) (e - 1) - e + 1)"
      using powi_succ [of "binade_down (x * 2) (e - 1) - e + 1"] by (simp add: algebra_simps)
    ultimately have "x < 2 powi (binade_down (x * 2) (e - 1) - e + 1)" by simp
    then show ?thesis using True by (simp add: binade_down_step)
  next
    case False
    then have "binade_down x e = e" by (rule binade_down_stop)
    then show ?thesis using 1(2) by simp
  qed
qed

lemma binade_down_subnormal:
  "- 1022 \<le> e \<Longrightarrow> x < 2 powi (- 1022 - e) \<Longrightarrow> binade_down x e = - 1022"
proof (induction x e rule: binade_down.induct)
  case (1 x e)
  show ?case
  proof (cases "x < 1 \<and> - 1022 < e")
    case True
    have "2 powi (- 1022 - (e - 1)) = (2::real) * 2 powi (- 1022 - e)"
      using powi_succ [of "- 1022 - e"] by (simp add: algebra_simps)
    with 1(3) have "x * 2 < 2 powi (- 1022 - (e - 1))" by simp
    moreover from True have "- 1022 \<le> e - 1" by simp
    ultimately have "binade_down (x * 2) (e - 1) = - 1022" using 1(1) True by simp
    then show ?thesis using True by (simp add: binade_down_step)
  next
    case False
    then have stop: "binade_down x e = e" by (rule binade_down_stop)
    have "(2::real) powi (- 1022 - e) \<le> 2 powi 0"
      using 1(2) by (intro power_int_increasing) auto
    with 1(3) have "x < 1" by simp
    with False 1(2) have "e = - 1022" by simp
    with stop show ?thesis by simp
  qed
qed

lemma expo_binade:
  assumes "2 powi (- 1022) \<le> \<bar>x\<bar>" and "\<bar>x\<bar> < 2 ^ 1024"
  shows "2 powi (expo x) \<le> \<bar>x\<bar> \<and> \<bar>x\<bar> < 2 powi (expo x + 1)"
proof (cases "1 \<le> \<bar>x\<bar>")
  case True
  have "2 powi (binade_up \<bar>x\<bar> 0 - 0) \<le> \<bar>x\<bar>" using True by (rule binade_up_lower)
  moreover have "\<bar>x\<bar> < 2 powi (binade_up \<bar>x\<bar> 0 - 0 + 1)"
    by (rule binade_up_upper) (use assms(2) in simp)
  ultimately show ?thesis using True by (simp add: expo_def)
next
  case False
  have "2 powi (binade_down \<bar>x\<bar> 0 - 0) \<le> \<bar>x\<bar>"
    by (rule binade_down_lower) (use assms(1) in simp_all)
  moreover have "\<bar>x\<bar> < 2 powi (binade_down \<bar>x\<bar> 0 - 0 + 1)"
    by (rule binade_down_upper) (use False in simp)
  ultimately show ?thesis using False by (simp add: expo_def)
qed

lemma expo_subnormal:
  assumes "\<bar>x\<bar> < 2 powi (- 1022)"
  shows "expo x = - 1022"
proof -
  have "(2::real) powi (- 1022) \<le> 2 powi 0" by (intro power_int_increasing) auto
  with assms have "\<not> 1 \<le> \<bar>x\<bar>" by simp
  moreover have "binade_down \<bar>x\<bar> 0 = - 1022"
    by (rule binade_down_subnormal) (use assms in simp_all)
  ultimately show ?thesis by (simp add: expo_def)
qed

text \<open>\<open>fl x\<close> is within half a spacing of \<open>x\<close>; from the smallest normal double on, that
  is a relative error of at most \<open>2 ^ - 53\<close>, and the result is normal again.\<close>

lemma fl_nearest: "\<bar>fl x - x\<bar> \<le> 2 powi (expo x - 53)"
proof -
  let ?q = "2 powi (expo x - 52) :: real"
  have q: "0 < ?q" by simp
  have up: "of_int (roundEven (x / ?q)) * ?q \<le> (x / ?q + 1 / 2) * ?q"
    using roundEven_upper [of "x / ?q"] q by (intro mult_right_mono) auto
  have lo: "(x / ?q - 1 / 2) * ?q \<le> of_int (roundEven (x / ?q)) * ?q"
    using roundEven_lower [of "x / ?q"] q by (intro mult_right_mono) auto
  have e1: "(x / ?q + 1 / 2) * ?q = x + ?q / 2" and e2: "(x / ?q - 1 / 2) * ?q = x - ?q / 2"
    using q by (simp_all add: field_simps)
  have h: "?q / 2 = 2 powi (expo x - 53)"
    using powi_succ [of "expo x - 53"] by simp
  from up lo show ?thesis unfolding e1 e2 h by (simp add: fl_def Let_def abs_le_iff)
qed

lemma fl_upper:
  assumes "2 powi (- 1022) \<le> x"
  shows "fl x \<le> x * (1 + 1 / 2 ^ 53)"
proof -
  let ?q = "2 powi (expo x - 52) :: real"
  have q: "0 < ?q" by simp
  have "of_int (roundEven (x / ?q)) \<le> x / ?q + 1 / 2" by (rule roundEven_upper)
  then have "of_int (roundEven (x / ?q)) * ?q \<le> (x / ?q + 1 / 2) * ?q"
    using q by (intro mult_right_mono) auto
  also have "\<dots> = x + ?q / 2" using q by (simp add: field_simps)
  finally have 1: "fl x \<le> x + ?q / 2" by (simp add: fl_def Let_def)
  have "?q / 2 = 2 powi (expo x) * (1 / 2 ^ 53)"
    by (simp add: power_int_diff)
  also have "\<dots> \<le> x * (1 / 2 ^ 53)"
    using expo_lower [OF assms] by (intro mult_right_mono) auto
  finally have "?q / 2 \<le> x * (1 / 2 ^ 53)" .
  with 1 show ?thesis by (simp add: algebra_simps)
qed

lemma fl_normal:
  assumes "2 powi (- 1022) \<le> x"
  shows "2 powi (- 1022) \<le> fl x"
proof -
  let ?q = "2 powi (expo x - 52) :: real"
  have q: "0 < ?q" by simp
  have "of_int (2 ^ 52) * ?q = 2 powi (expo x)" by (simp add: power_int_diff)
  also have "\<dots> \<le> x" by (rule expo_lower [OF assms])
  finally have "of_int (2 ^ 52) \<le> x / ?q" using q by (simp add: pos_le_divide_eq)
  then have "2 ^ 52 \<le> roundEven (x / ?q)" by (rule roundEven_ge)
  then have "(of_int (2 ^ 52) :: real) \<le> of_int (roundEven (x / ?q))" by (simp only: of_int_le_iff)
  then have "of_int (2 ^ 52) * ?q \<le> of_int (roundEven (x / ?q)) * ?q"
    using q by (intro mult_right_mono) auto
  then have "2 powi (expo x) \<le> fl x" by (simp add: fl_def Let_def power_int_diff)
  moreover have "(2::real) powi (- 1022) \<le> 2 powi (expo x)"
    by (rule power_int_increasing) (use expo_ge in auto)
  ultimately show ?thesis by linarith
qed

lemma fl_lower:
  assumes "2 powi (- 1022) \<le> x"
  shows "x * (1 - 1 / 2 ^ 53) \<le> fl x"
proof -
  let ?q = "2 powi (expo x - 52) :: real"
  have q: "0 < ?q" by simp
  have "x / ?q - 1 / 2 \<le> of_int (roundEven (x / ?q))" by (rule roundEven_lower)
  then have "(x / ?q - 1 / 2) * ?q \<le> of_int (roundEven (x / ?q)) * ?q"
    using q by (intro mult_right_mono) auto
  moreover have "(x / ?q - 1 / 2) * ?q = x - ?q / 2" using q by (simp add: field_simps)
  ultimately have 1: "x - ?q / 2 \<le> fl x" by (simp add: fl_def Let_def)
  have "?q / 2 = 2 powi (expo x) * (1 / 2 ^ 53)"
    by (simp add: power_int_diff)
  also have "\<dots> \<le> x * (1 / 2 ^ 53)"
    using expo_lower [OF assms] by (intro mult_right_mono) auto
  finally have "?q / 2 \<le> x * (1 / 2 ^ 53)" .
  with 1 show ?thesis by (simp add: algebra_simps)
qed

lemma three_roundings_down:
  "(1 - 1 / 2 ^ 51 :: real) \<le> (1 - 1 / 2 ^ 53) * ((1 - 1 / 2 ^ 53) * (1 - 1 / 2 ^ 53))"
  by simp

lemma fl_subnormal:
  assumes "\<bar>x\<bar> < 2 powi (- 1022)"
  shows "fl x = of_int (roundEven (x * 2 ^ 1074)) / 2 ^ 1074"
  by (simp add: fl_def Let_def expo_subnormal [OF assms] power_int_minus field_simps)



section \<open>Properties of the fill presets and the image placement\<close>

lemmas render_defs = applyTemplate_def composite_def drawBackground_def loadDeviceFrame_def
  loadDeviceFrame_try_def phoneReal_def phoneFallback_def browserWindow_def orientation_of_def
  drawImageInPhoneReal_def drawImageInPhone_def padding_def set_width_def set_height_def
  canvas_dim_def addWatermark_def Let_def

lemmas example_defs = editing_def deviceTemplate_def networkUp_def networkDown_def
  sampleDescriptor_def

text \<open>
  C1. After "Fill All" and the re-render, the drawn image rectangle should cover the
  screen rectangle on both axes. On the code it does not: \<open>handleFillScreen\<close> hands the
  relative scale 1 to a renderer whose base scale is the fit scale, so a square image
  is drawn 290.4 wide and 290.4 high in the 290.4 by 630.96 screen of a portrait phone,
  and 675 by 675 in the 1200 by 675 browser window. The theorem evaluates both renders:
  the stored screen size first, then the rectangle of the image.
\<close>

theorem fill_screen_leaves_gaps:
  "imageTransform (fst (handleFillScreen networkUp Map.empty
      (editing (deviceTemplate ''phone'' ''portrait'')
         \<lparr>image_width = 1000, image_height = 1000\<rparr> None)))
     = \<lparr>transform_scale = 1, transform_x = 0, transform_y = 0\<rparr> \<and>
   screenAndImage (snd (handleFillScreen networkUp Map.empty
      (editing (deviceTemplate ''phone'' ''portrait'')
         \<lparr>image_width = 1000, image_height = 1000\<rparr> None)))
     = Some ((1452 / 5, 15774 / 25), (122, 7307 / 25, 1452 / 5, 1452 / 5)) \<and>
   screenAndImage (snd (handleFillScreen networkUp Map.empty
      (editing (deviceTemplate ''browser'' [])
         \<lparr>image_width = 1000, image_height = 1000\<rparr> None)))
     = Some ((1200, 675), (725 / 2, 140, 675, 675))"
  by (simp add: handleFillScreen_def applyFillTransform_def screenAndImage_def
      render_defs example_defs)

text \<open>The renderer itself covers the screen once it is handed the cover scale relative to
  its base scale, and touches both sides once it is handed the width scale relative to
  its base scale.\<close>

lemma cover_scale_covers:
  assumes "0 < image_width img" "0 < image_height img" "0 < screenWidth" "0 < screenHeight"
    and "transform_scale t =
           max (screenWidth / real (image_width img)) (screenHeight / real (image_height img)) /
           min (screenWidth / real (image_width img)) (screenHeight / real (image_height img))"
  shows "\<exists>ix iy iw ih.
           drawnUserImage (drawImageInPhoneReal img screenX screenY screenWidth screenHeight t ori)
             = Some (ix, iy, iw, ih) \<and> screenWidth \<le> iw \<and> screenHeight \<le> ih"
proof -
  let ?W = "real (image_width img)" and ?H = "real (image_height img)"
  let ?p = "screenWidth / ?W" and ?q = "screenHeight / ?H"
  have W: "0 < ?W" and H: "0 < ?H" using assms by simp_all
  have p: "0 < ?p" and q: "0 < ?q" using W H assms by simp_all
  then have b: "0 < min ?p ?q" by simp
  have b0: "min ?p ?q \<noteq> 0" using b by (metis less_irrefl)
  have s: "min ?p ?q * transform_scale t = max ?p ?q" by (simp only: assms(5)) (simp add: b0)
  have "screenWidth = ?W * ?p" using W by simp
  also have "\<dots> \<le> ?W * max ?p ?q" using W by (intro mult_left_mono) auto
  finally have w: "screenWidth \<le> ?W * max ?p ?q" .
  have "screenHeight = ?H * ?q" using H by simp
  also have "\<dots> \<le> ?H * max ?p ?q" using H by (intro mult_left_mono) auto
  finally have h: "screenHeight \<le> ?H * max ?p ?q" .
  show ?thesis using w h s by (simp add: drawImageInPhoneReal_def Let_def)
qed

lemma width_scale_fills_width:
  assumes "0 < image_width img" "0 < image_height img" "0 < screenWidth" "0 < screenHeight"
    and "transform_scale t =
           (screenWidth / real (image_width img)) /
           min (screenWidth / real (image_width img)) (screenHeight / real (image_height img))"
  shows "\<exists>ix iy ih.
           drawnUserImage (drawImageInPhoneReal img screenX screenY screenWidth screenHeight t ori)
             = Some (ix, iy, screenWidth, ih)"
proof -
  let ?W = "real (image_width img)" and ?H = "real (image_height img)"
  let ?p = "screenWidth / ?W" and ?q = "screenHeight / ?H"
  have W: "0 < ?W" and H: "0 < ?H" using assms by simp_all
  have p: "0 < ?p" and q: "0 < ?q" using W H assms by simp_all
  then have b: "0 < min ?p ?q" by simp
  have b0: "min ?p ?q \<noteq> 0" using b by (metis less_irrefl)
  have s: "min ?p ?q * transform_scale t = ?p" by (simp only: assms(5)) (simp add: b0)
  have "?W * (min ?p ?q * transform_scale t) = screenWidth" using W by (simp only: s) simp
  then show ?thesis by (simp add: drawImageInPhoneReal_def Let_def)
qed

text \<open>
  C2. After "Fill Horizontal" and the re-render, the drawn image width should equal the
  screen width. On the code it does not: \<open>handleFillHorizontal\<close> divides the width scale
  by the cover scale, and the renderer multiplies by the fit scale. A 1000 by 500 image
  in the 1200 by 675 browser window is drawn 3200/3 wide; a square image in the 290.4 by
  630.96 screen of a portrait phone is drawn 31944/239 wide.
\<close>

theorem fill_horizontal_misses_width:
  "imageTransform (fst (handleFillHorizontal networkUp Map.empty
      (editing (deviceTemplate ''browser'' [])
         \<lparr>image_width = 1000, image_height = 500\<rparr> (Some (1200, 675)))))
     = \<lparr>transform_scale = 8 / 9, transform_x = 0, transform_y = 0\<rparr> \<and>
   screenAndImage (snd (handleFillHorizontal networkUp Map.empty
      (editing (deviceTemplate ''browser'' [])
         \<lparr>image_width = 1000, image_height = 500\<rparr> (Some (1200, 675)))))
     = Some ((1200, 675), (500 / 3, 1265 / 6, 3200 / 3, 1600 / 3)) \<and>
   screenAndImage (snd (handleFillHorizontal networkUp Map.empty
      (editing (deviceTemplate ''phone'' ''portrait'')
         \<lparr>image_width = 1000, image_height = 1000\<rparr> (Some (1452 / 5, 15774 / 25)))))
     = Some ((1452 / 5, 15774 / 25), (239444 / 1195, 2214643 / 5975, 31944 / 239, 31944 / 239))"
  by (simp add: handleFillHorizontal_def getScreenDimensions_def applyFillTransform_def
      screenAndImage_def render_defs example_defs)

text \<open>The size \<open>drawImageInPhoneReal\<close> computes exactly and the size the doubles give
  differ by a factor between \<open>1 - 2 ^ - 51\<close> and \<open>1 + 2 ^ - 51\<close>.\<close>

lemma three_roundings_up: "(1 + 1 / 2 ^ 53) * ((1 + 1 / 2 ^ 53) * (1 + 1 / 2 ^ 53)) \<le> (1 + 1 / 2 ^ 51 :: real)"
  by simp

lemma min_rounded:
  assumes "0 \<le> (k::real)" "a * k \<le> a'" "b * k \<le> b'"
  shows "min a b * k \<le> min a' b'"
proof -
  have "min a b * k \<le> a * k" "min a b * k \<le> b * k"
    using assms(1) by (intro mult_right_mono; simp)+
  with assms(2,3) show ?thesis by simp
qed

lemma min_rounded_up:
  assumes "0 \<le> (k::real)" "a' \<le> a * k" "b' \<le> b * k"
  shows "min a' b' \<le> min a b * k"
proof (cases "a \<le> b")
  case True
  then have "min a b = a" by simp
  moreover have "min a' b' \<le> a'" by simp
  ultimately show ?thesis using assms(2) by simp
next
  case False
  then have "min a b = b" by simp
  moreover have "min a' b' \<le> b'" by simp
  ultimately show ?thesis using assms(3) by simp
qed

lemma close_side:
  assumes W: "1 \<le> (W::real)"
    and s: "0 \<le> s"
    and me: "0 \<le> me"
    and m: "me * (1 - 1 / 2 ^ 53) \<le> m" "m \<le> me * (1 + 1 / 2 ^ 53)"
    and n: "2 powi (- 1022) \<le> m * s"
  shows "W * (me * s) * (1 - 1 / 2 ^ 51) \<le> fl (W * fl (m * s)) \<and>
         fl (W * fl (m * s)) \<le> W * (me * s) * (1 + 1 / 2 ^ 51)"
proof -
  let ?u = "1 + 1 / 2 ^ 53 :: real" and ?d = "1 - 1 / 2 ^ 53 :: real"
  have u: "0 \<le> ?u" and d: "0 \<le> ?d" by simp_all
  have Wpos: "0 \<le> W" using W by linarith
  have f_up: "fl (m * s) \<le> m * s * ?u" using n by (rule fl_upper)
  have f_lo: "m * s * ?d \<le> fl (m * s)" using n by (rule fl_lower)
  have f_n: "2 powi (- 1022) \<le> fl (m * s)" using n by (rule fl_normal)
  have fpos: "0 \<le> fl (m * s)" using f_n by (rule order_trans [rotated]) simp
  have "fl (m * s) \<le> W * fl (m * s)" using W fpos by (simp add: mult_le_cancel_right1)
  with f_n have p: "2 powi (- 1022) \<le> W * fl (m * s)" by linarith
  have E: "0 \<le> W * (me * s)" using Wpos me s by simp
  have "fl (W * fl (m * s)) \<le> W * fl (m * s) * ?u" using p by (rule fl_upper)
  also have "\<dots> \<le> W * (m * s * ?u) * ?u"
    using f_up Wpos u by (intro mult_right_mono mult_left_mono) auto
  also have "\<dots> \<le> W * (me * ?u * s * ?u) * ?u"
    using m(2) Wpos s u by (intro mult_right_mono mult_left_mono) auto
  also have "\<dots> = W * (me * s) * (?u * (?u * ?u))" by simp
  also have "\<dots> \<le> W * (me * s) * (1 + 1 / 2 ^ 51)"
    using E three_roundings_up by (intro mult_left_mono) auto
  finally have up: "fl (W * fl (m * s)) \<le> W * (me * s) * (1 + 1 / 2 ^ 51)" .
  have "W * (me * s) * (1 - 1 / 2 ^ 51) \<le> W * (me * s) * (?d * (?d * ?d))"
    using E three_roundings_down by (intro mult_left_mono) auto
  also have "\<dots> = W * (me * ?d * s * ?d) * ?d" by simp
  also have "\<dots> \<le> W * (m * s * ?d) * ?d"
    using m(1) Wpos s d by (intro mult_right_mono mult_left_mono) auto
  also have "\<dots> \<le> W * fl (m * s) * ?d"
    using f_lo Wpos d by (intro mult_right_mono mult_left_mono) auto
  also have "\<dots> \<le> fl (W * fl (m * s))" using p by (rule fl_lower)
  finally have lo: "W * (me * s) * (1 - 1 / 2 ^ 51) \<le> fl (W * fl (m * s))" .
  from lo up show ?thesis ..
qed

lemma drawnSize_double:
  "drawnSize (drawImageInPhoneReal_double img screenX screenY screenWidth screenHeight t ori) =
     Some (fl (real (image_width img) *
               fl (min (fl (screenWidth / real (image_width img)))
                       (fl (screenHeight / real (image_height img))) * transform_scale t)),
           fl (real (image_height img) *
               fl (min (fl (screenWidth / real (image_width img)))
                       (fl (screenHeight / real (image_height img))) * transform_scale t)))"
  by (simp add: drawnSize_def drawImageInPhoneReal_double_def Let_def)


lemma drawnSize_exact:
  "drawnSize (drawImageInPhoneReal img screenX screenY screenWidth screenHeight t ori) =
     Some (real (image_width img) *
             (min (screenWidth / real (image_width img))
                  (screenHeight / real (image_height img)) * transform_scale t),
           real (image_height img) *
             (min (screenWidth / real (image_width img))
                  (screenHeight / real (image_height img)) * transform_scale t))"
  by (simp add: drawnSize_def drawImageInPhoneReal_def Let_def)

lemma double_size_close_to_exact:
  assumes "0 < image_width img" and "image_width img < 2 ^ 32"
    and "0 < image_height img" and "image_height img < 2 ^ 32"
    and "1 / 2 ^ 900 \<le> screenWidth" and "1 / 2 ^ 900 \<le> screenHeight"
    and "1 / 2 ^ 64 \<le> transform_scale t"
  shows "\<exists>dw dh ew eh.
           drawnSize (drawImageInPhoneReal_double img screenX screenY screenWidth screenHeight t ori)
             = Some (dw, dh) \<and>
           drawnSize (drawImageInPhoneReal img screenX screenY screenWidth screenHeight t ori)
             = Some (ew, eh) \<and>
           ew * (1 - 1 / 2 ^ 51) \<le> dw \<and> dw \<le> ew * (1 + 1 / 2 ^ 51) \<and>
           eh * (1 - 1 / 2 ^ 51) \<le> dh \<and> dh \<le> eh * (1 + 1 / 2 ^ 51)"
proof -
  let ?W = "real (image_width img)" and ?H = "real (image_height img)"
  let ?x = "screenWidth / ?W" and ?y = "screenHeight / ?H"
  let ?s = "transform_scale t"
  let ?m = "min (fl ?x) (fl ?y)" and ?me = "min ?x ?y"
  have W1: "1 \<le> ?W" and H1: "1 \<le> ?H" using assms(1,3) by simp_all
  have "?W < real (2 ^ 32)" using assms(2) by (simp only: of_nat_less_iff)
  then have W2: "?W \<le> 2 ^ 32" by simp
  have "?H < real (2 ^ 32)" using assms(4) by (simp only: of_nat_less_iff)
  then have H2: "?H \<le> 2 ^ 32" by simp
  have Wpos: "0 < ?W" and Hpos: "0 < ?H" using W1 H1 by linarith+
  have s0: "0 \<le> ?s" using assms(7) by (rule order_trans [rotated]) simp
  have "1 / 2 ^ 932 * ?W \<le> 1 / 2 ^ 932 * 2 ^ 32" using W2 by (intro mult_left_mono) auto
  also have "\<dots> = (1 / 2 ^ 900 :: real)" by simp
  finally have "1 / 2 ^ 932 * ?W \<le> screenWidth" using assms(5) by linarith
  then have x: "1 / 2 ^ 932 \<le> ?x" using Wpos by (simp add: pos_le_divide_eq)
  have "1 / 2 ^ 932 * ?H \<le> 1 / 2 ^ 932 * 2 ^ 32" using H2 by (intro mult_left_mono) auto
  also have "\<dots> = (1 / 2 ^ 900 :: real)" by simp
  finally have "1 / 2 ^ 932 * ?H \<le> screenHeight" using assms(6) by linarith
  then have y: "1 / 2 ^ 932 \<le> ?y" using Hpos by (simp add: pos_le_divide_eq)
  have xn: "2 powi (- 1022) \<le> ?x" using x by (rule order_trans [rotated]) simp
  have yn: "2 powi (- 1022) \<le> ?y" using y by (rule order_trans [rotated]) simp
  have me: "1 / 2 ^ 932 \<le> ?me" using x y by simp
  have me0: "0 \<le> ?me" using me by (rule order_trans [rotated]) simp
  have m_lo: "?me * (1 - 1 / 2 ^ 53) \<le> ?m"
    by (rule min_rounded) (simp, rule fl_lower [OF xn], rule fl_lower [OF yn])
  have m_up: "?m \<le> ?me * (1 + 1 / 2 ^ 53)"
    by (rule min_rounded_up) (simp, rule fl_upper [OF xn], rule fl_upper [OF yn])
  have "1 / 2 ^ 932 * (1 - 1 / 2 ^ 53) \<le> ?me * (1 - 1 / 2 ^ 53)"
    using me by (intro mult_right_mono) auto
  with m_lo have "1 / 2 ^ 932 * (1 - 1 / 2 ^ 53) \<le> ?m" by linarith
  moreover have "(1 / 2 ^ 933 :: real) \<le> 1 / 2 ^ 932 * (1 - 1 / 2 ^ 53)" by simp
  ultimately have m933: "1 / 2 ^ 933 \<le> ?m" by linarith
  have "(1 / 2 ^ 933) * (1 / 2 ^ 64) \<le> ?m * ?s"
    using m933 assms(7) by (intro mult_mono) auto
  moreover have "(2::real) powi (- 1022) \<le> (1 / 2 ^ 933) * (1 / 2 ^ 64)" by simp
  ultimately have n: "2 powi (- 1022) \<le> ?m * ?s" by linarith
  note w = close_side [OF W1 s0 me0 m_lo m_up n]
  note h = close_side [OF H1 s0 me0 m_lo m_up n]
  show ?thesis
    using w h by (simp only: drawnSize_double drawnSize_exact) blast
qed

lemma quotient_normal:
  assumes W: "1 \<le> (W::real)" "W \<le> 2 ^ 32" and s: "1 / 2 ^ 990 \<le> s"
  shows "2 powi (- 1022) \<le> s / W"
proof -
  have Wpos: "0 < W" using W(1) by linarith
  have "2 powi (- 1022) * W \<le> 2 powi (- 1022) * 2 ^ 32"
    using W(2) by (intro mult_left_mono) auto
  also have "\<dots> = 1 / 2 ^ 990" by simp
  finally have "2 powi (- 1022) * W \<le> s" using s by linarith
  then show ?thesis using Wpos by (simp add: pos_le_divide_eq)
qed

lemma fit_side:
  assumes W: "1 \<le> W" "W \<le> 2 ^ 32"
    and s: "1 / 2 ^ 990 \<le> s"
    and m: "2 powi (- 1022) \<le> m" "m \<le> fl (s / W)"
  shows "fl (W * fl m) \<le> s * (1 + 1 / 2 ^ 51)"
proof -
  let ?u = "1 + 1 / 2 ^ 53 :: real"
  have u: "0 \<le> ?u" by simp
  have Wpos: "0 < W" using W(1) by linarith
  have spos: "0 < s" using s by (rule less_le_trans [rotated]) simp
  have q: "2 powi (- 1022) \<le> s / W" using W s by (rule quotient_normal)
  have a: "fl (s / W) \<le> s / W * ?u" using q by (rule fl_upper)
  have f1: "fl m \<le> m * ?u" using m(1) by (rule fl_upper)
  have f2: "2 powi (- 1022) \<le> fl m" using m(1) by (rule fl_normal)
  have fpos: "0 \<le> fl m" using f2 by (rule order_trans [rotated]) simp
  have "fl m \<le> W * fl m" using W(1) fpos by (simp add: mult_le_cancel_right1)
  with f2 have p: "2 powi (- 1022) \<le> W * fl m" by linarith
  have "fl (W * fl m) \<le> W * fl m * ?u" using p by (rule fl_upper)
  also have "\<dots> \<le> W * (m * ?u) * ?u"
    using f1 Wpos u by (intro mult_right_mono mult_left_mono) auto
  also have "\<dots> \<le> W * (s / W * ?u * ?u) * ?u"
    using m(2) a Wpos u by (intro mult_right_mono mult_left_mono) auto
  also have "\<dots> = s * (?u * (?u * ?u))" using Wpos by simp
  also have "\<dots> \<le> s * (1 + 1 / 2 ^ 51)"
    using spos three_roundings_up by (intro mult_left_mono) auto
  finally show ?thesis .
qed

lemma no_overflow:
  assumes "w \<le> s * (1 + 1 / 2 ^ 51)" and "0 \<le> s" and "s \<le> (2::real) ^ 1023"
  shows "w < 2 ^ 1024"
proof -
  have "s * (1 + 1 / 2 ^ 51) \<le> 2 ^ 1023 * (1 + 1 / 2 ^ 51 :: real)"
    using assms(3) by (intro mult_right_mono) auto
  also have "\<dots> < 2 ^ 1024" by simp
  finally show ?thesis using assms(1) by linarith
qed


text \<open>
  C4. With \<open>transform.scale = 1\<close>, an image whose sides are positive and below \<open>2 ^ 32\<close>
  and a screen rectangle whose sides lie between \<open>2 ^ - 990\<close> and \<open>2 ^ 1023\<close>, the image
  is drawn, in the double arithmetic of the source, no wider and no higher than the
  screen rectangle up to rounding: at most by the factor \<open>1 + 2 ^ - 51\<close>. The drawn sizes
  are finite. Within the stated range no quotient is subnormal and no product overflows.
\<close>

theorem fit_within_rounding:
  assumes "0 < image_width img" and "image_width img < 2 ^ 32"
    and "0 < image_height img" and "image_height img < 2 ^ 32"
    and "1 / 2 ^ 990 \<le> screenWidth" and "screenWidth \<le> 2 ^ 1023"
    and "1 / 2 ^ 990 \<le> screenHeight" and "screenHeight \<le> 2 ^ 1023"
    and "transform_scale t = 1"
  shows "\<exists>iw ih.
           drawnSize (drawImageInPhoneReal_double img screenX screenY screenWidth screenHeight t ori)
             = Some (iw, ih) \<and>
           iw \<le> screenWidth * (1 + 1 / 2 ^ 51) \<and> ih \<le> screenHeight * (1 + 1 / 2 ^ 51) \<and>
           iw < 2 ^ 1024 \<and> ih < 2 ^ 1024"
proof -
  let ?W = "real (image_width img)" and ?H = "real (image_height img)"
  let ?a = "fl (screenWidth / ?W)" and ?b = "fl (screenHeight / ?H)"
  let ?m = "min ?a ?b"
  have W1: "1 \<le> ?W" and H1: "1 \<le> ?H" using assms(1,3) by simp_all
  have "?W < real (2 ^ 32)" using assms(2) by (simp only: of_nat_less_iff)
  then have W2: "?W \<le> 2 ^ 32" by simp
  have "?H < real (2 ^ 32)" using assms(4) by (simp only: of_nat_less_iff)
  then have H2: "?H \<le> 2 ^ 32" by simp
  have sw0: "0 \<le> screenWidth" using assms(5) by (rule order_trans [rotated]) simp
  have sh0: "0 \<le> screenHeight" using assms(7) by (rule order_trans [rotated]) simp
  have a: "2 powi (- 1022) \<le> ?a"
    by (rule fl_normal) (rule quotient_normal [OF W1 W2 assms(5)])
  have b: "2 powi (- 1022) \<le> ?b"
    by (rule fl_normal) (rule quotient_normal [OF H1 H2 assms(7)])
  from a b have m: "2 powi (- 1022) \<le> ?m" by simp
  have w: "fl (?W * fl ?m) \<le> screenWidth * (1 + 1 / 2 ^ 51)"
    by (rule fit_side [OF W1 W2 assms(5) m]) simp
  have h: "fl (?H * fl ?m) \<le> screenHeight * (1 + 1 / 2 ^ 51)"
    by (rule fit_side [OF H1 H2 assms(7) m]) simp
  have wf: "fl (?W * fl ?m) < 2 ^ 1024" using w sw0 assms(6) by (rule no_overflow)
  have hf: "fl (?H * fl ?m) < 2 ^ 1024" using h sh0 assms(8) by (rule no_overflow)
  have "drawnSize (drawImageInPhoneReal_double img screenX screenY screenWidth screenHeight t ori)
          = Some (fl (?W * fl ?m), fl (?H * fl ?m))"
    by (simp add: drawnSize_double assms(9))
  with w h wf hf show ?thesis by blast
qed

text \<open>An 81 by 81 image in the 380 by 780 screen: the quotient \<open>380 / 81\<close> rounds up, the
  product with 81 rounds up again, and the image is drawn \<open>380 + 2 ^ - 44\<close> wide.\<close>

lemma fl_380_over_81: "fl (380 / 81) = 5281999562965397 / 1125899906842624"
  by (simp add: fl_def expo_def binade_up.simps roundEven_def Let_def)

lemma fl_260_over_27: "fl (260 / 27) = 2710499775732243 / 281474976710656"
  by (simp add: fl_def expo_def binade_up.simps roundEven_def Let_def)

lemma fl_of_double: "fl (5281999562965397 / 1125899906842624) = 5281999562965397 / 1125899906842624"
  by (simp add: fl_def expo_def binade_up.simps roundEven_def Let_def)

lemma fl_81_times: "fl (427841964600197157 / 1125899906842624) = 6685030696878081 / 17592186044416"
  by (simp add: fl_def expo_def binade_up.simps roundEven_def Let_def)

lemma drawn_81:
  "drawnSize (drawImageInPhoneReal_double \<lparr>image_width = 81, image_height = 81\<rparr> 100 100 380 780
      \<lparr>transform_scale = 1, transform_x = 0, transform_y = 0\<rparr> ''portrait'')
     = Some (6685030696878081 / 17592186044416, 6685030696878081 / 17592186044416)"
  by (simp add: drawnSize_double fl_380_over_81 fl_260_over_27 fl_of_double fl_81_times)

theorem fit_within_rounding_witness:
  "0 < image_width \<lparr>image_width = 81, image_height = 81\<rparr> \<and>
   image_width \<lparr>image_width = 81, image_height = 81\<rparr> < 2 ^ 32 \<and>
   0 < image_height \<lparr>image_width = 81, image_height = 81\<rparr> \<and>
   image_height \<lparr>image_width = 81, image_height = 81\<rparr> < 2 ^ 32 \<and>
   transform_scale \<lparr>transform_scale = 1, transform_x = 0, transform_y = 0\<rparr> = 1 \<and>
   1 / 2 ^ 990 \<le> (380::real) \<and> (380::real) \<le> 2 ^ 1023 \<and>
   1 / 2 ^ 990 \<le> (780::real) \<and> (780::real) \<le> 2 ^ 1023 \<and>
   drawnSize (drawImageInPhoneReal_double \<lparr>image_width = 81, image_height = 81\<rparr> 100 100 380 780
      \<lparr>transform_scale = 1, transform_x = 0, transform_y = 0\<rparr> ''portrait'')
     = Some (6685030696878081 / 17592186044416, 6685030696878081 / 17592186044416) \<and>
   6685030696878081 / 17592186044416 \<le> (380::real) * (1 + 1 / 2 ^ 51) \<and>
   6685030696878081 / 17592186044416 \<le> (780::real) * (1 + 1 / 2 ^ 51)"
  using fit_within_rounding [of "\<lparr>image_width = 81, image_height = 81\<rparr>" 380 780
      "\<lparr>transform_scale = 1, transform_x = 0, transform_y = 0\<rparr>" 100 100 "''portrait''"]
  by (simp add: drawn_81)

theorem exact_fit_counterexample:
  "drawnSize (drawImageInPhoneReal_double \<lparr>image_width = 81, image_height = 81\<rparr> 100 100 380 780
      \<lparr>transform_scale = 1, transform_x = 0, transform_y = 0\<rparr> ''portrait'')
     = Some (6685030696878081 / 17592186044416, 6685030696878081 / 17592186044416) \<and>
   \<not> (6685030696878081 / 17592186044416 \<le> (380::real))"
  using drawn_81 by simp

text \<open>Below the stated range the relative bound is lost: a screen three subnormal steps
  wide takes an image four steps wide.\<close>

lemma subnormal_screen_exceeds_tolerance:
  "drawnSize (drawImageInPhoneReal_double \<lparr>image_width = 2, image_height = 2\<rparr> 0 0
      (3 / 2 ^ 1074) (3 / 2 ^ 1074)
      \<lparr>transform_scale = 1, transform_x = 0, transform_y = 0\<rparr> ''portrait'')
     = Some (4 / 2 ^ 1074, 4 / 2 ^ 1074)"
proof -
  have a: "fl (3 / 2 ^ 1074 / 2) = 2 / 2 ^ 1074"
    by (subst fl_subnormal) (simp_all add: roundEven_def)
  have b: "fl (2 / 2 ^ 1074) = 2 / 2 ^ 1074"
    by (subst fl_subnormal) (simp_all add: roundEven_def)
  have c: "fl (2 * (2 / 2 ^ 1074)) = 4 / 2 ^ 1074"
    by (subst fl_subnormal) (simp_all add: roundEven_def)
  have "drawnSize (drawImageInPhoneReal_double \<lparr>image_width = 2, image_height = 2\<rparr> 0 0
      (3 / 2 ^ 1074) (3 / 2 ^ 1074)
      \<lparr>transform_scale = 1, transform_x = 0, transform_y = 0\<rparr> ''portrait'')
     = Some (fl (2 * fl (fl (3 / 2 ^ 1074 / 2))), fl (2 * fl (fl (3 / 2 ^ 1074 / 2))))"
    unfolding drawnSize_double by (simp del: power_numeral divide_divide_eq_left)
  then show ?thesis by (simp only: a b c)
qed


section \<open>Properties of the landscape rotation\<close>

text \<open>The rotation back is the forward formula applied three times, through any two
  intermediate frames: it is the quarter turn of the code taken the other way.\<close>

lemma rotateRectBack_is_three_turns:
  assumes "W \<noteq> 0" "H \<noteq> 0" "A \<noteq> 0" "B \<noteq> 0" "C \<noteq> 0" "D \<noteq> 0"
  shows "rotateRect (rotateRect (rotateRect r (W, H) (A, B)) (A, B) (C, D)) (C, D) (fw, fh)
         = rotateRectBack r (W, H) (fw, fh)"
  using assms by (cases r) (simp add: rotateRect_def rotateRectBack_def field_simps)

text \<open>
  C3. The rotation formula of the landscape phone followed by its inverse gives the
  original screen rectangle back, for every rectangle and every frame and drawn size
  with non-zero sides.
\<close>

theorem rotation_round_trip:
  assumes "fw \<noteq> 0" "fh \<noteq> 0" "W \<noteq> 0" "H \<noteq> 0"
  shows "rotateRectBack (rotateRect (sx, sy, sw, sh) (fw, fh) (W, H)) (W, H) (fw, fh)
         = (sx, sy, sw, sh)"
  using assms by (simp add: rotateRect_def rotateRectBack_def field_simps)

theorem rotation_round_trip_witness:
  "(1520::real) \<noteq> 0 \<and> (3068::real) \<noteq> 0 \<and>
   rotateRect (100, 100, 1320, 2868) (1520, 3068) (3068 * 0.28, 1520 * 0.28)
     = (28, 28, 20076 / 25, 1848 / 5) \<and>
   rotateRectBack (rotateRect (100, 100, 1320, 2868) (1520, 3068) (3068 * 0.28, 1520 * 0.28))
     (3068 * 0.28, 1520 * 0.28) (1520, 3068) = (100, 100, 1320, 2868)"
  using rotation_round_trip [of 1520 3068 "3068 * 0.28" "1520 * 0.28" 100 100 1320 2868]
  by (simp add: rotateRect_def)


section \<open>Properties of the watermark\<close>

lemma trim_Nil: "trim [] = []"
  by (simp add: trim_def)

text \<open>
  C5. An entitled user with an empty trimmed custom text gets no watermark text at all;
  a non-entitled user gets the branding text first, right-aligned at the bottom right,
  whatever the custom text; and with a non-empty trimmed custom text the non-entitled
  user gets the branding first and the custom text second, centred at the bottom.
\<close>

theorem watermark_exclusivity:
  "(paid \<and> trim text = [] \<longrightarrow> addWatermark cw ch text paid = []) \<and>
   (\<not> paid \<longrightarrow> (\<exists>rest. addWatermark cw ch text paid =
        FillText (js ''AppShot Free'') (cw - 30) (ch - 30) ''right''
          ''rgba(255, 255, 255, 0.35)'' # rest)) \<and>
   (\<not> paid \<and> trim text \<noteq> [] \<longrightarrow> addWatermark cw ch text paid =
        [FillText (js ''AppShot Free'') (cw - 30) (ch - 30) ''right'' ''rgba(255, 255, 255, 0.35)'',
         StrokeText text (cw / 2) (ch - 30) ''center'' ''rgba(0, 0, 0, 0.8)'',
         FillText text (cw / 2) (ch - 30) ''center'' ''rgba(255, 255, 255, 0.95)''])"
  by (auto simp: addWatermark_def trim_Nil)

theorem watermark_exclusivity_witness:
  "trim (js ''  '') = [] \<and> addWatermark 1400 915 (js ''  '') True = [] \<and>
   trim (js ''v2 beta'') \<noteq> [] \<and>
   addWatermark 1400 915 (js ''v2 beta'') False =
     [FillText (js ''AppShot Free'') 1370 885 ''right'' ''rgba(255, 255, 255, 0.35)'',
      StrokeText (js ''v2 beta'') 700 885 ''center'' ''rgba(0, 0, 0, 0.8)'',
      FillText (js ''v2 beta'') 700 885 ''center'' ''rgba(255, 255, 255, 0.95)'']"
proof -
  have e: "trim (js ''  '') = []" by (simp add: trim_def js_def isWhiteSpace_def)
  have n: "trim (js ''v2 beta'') \<noteq> []" by (simp add: trim_def js_def isWhiteSpace_def)
  from e n watermark_exclusivity [of True "js ''  ''" 1400 915]
    watermark_exclusivity [of False "js ''v2 beta''" 1400 915]
  show ?thesis by simp
qed


section \<open>Properties of the frame loader and of the whole composite\<close>

lemma loadDeviceFrame_returns: "\<exists>r. fst (loadDeviceFrame net c p) = Inr r"
  by (simp add: loadDeviceFrame_def split: option.split sum.split)

lemma loadDeviceFrame_unavailable:
  "c p = None \<Longrightarrow> assetUnavailable net p \<Longrightarrow> loadDeviceFrame net c p = (Inr None, c)"
  by (auto simp: loadDeviceFrame_def loadDeviceFrame_try_def assetUnavailable_def
      split: promise.splits if_splits)

lemma loadDeviceFrame_stable:
  "loadDeviceFrame net c p = (r, c') \<Longrightarrow> loadDeviceFrame net c' p = (r, c')"
  by (auto simp: loadDeviceFrame_def split: option.splits sum.splits)

lemma composite_device:
  "template_type t = Device \<Longrightarrow>
   composite t b wm paid =
     Inr (Some (b\<lparr>ops := FillRect (LinearGradient 0 0 (canvas_width b) (canvas_height b)
                              [(0, ''#667eea''), (1, ''#764ba2'')])
                            0 0 (canvas_width b) (canvas_height b)
                           # ops b @ addWatermark (canvas_width b) (canvas_height b) wm paid\<rparr>))"
  by (simp add: composite_def drawBackground_def)

lemma frameBitmaps_addWatermark: "frameBitmaps (xs @ addWatermark cw ch wm paid) = frameBitmaps xs"
  by (induction xs rule: frameBitmaps.induct) (simp_all add: addWatermark_def)

lemma frameBitmaps_drawImageInPhone: "frameBitmaps (drawImageInPhone img cx cy w h tr ori) = []"
  by (simp add: drawImageInPhone_def Let_def)

lemma canvas_sizes:
  "set_width 680 = 680" "set_height 680 = 680" "set_width 1080 = 1080" "set_height 1080 = 1080"
  "set_width 1224 = 1224" "set_height 968 = 968" "set_width 1400 = 1400" "set_height 915 = 915"
  by (simp_all add: set_width_def set_height_def canvas_dim_def)

lemma phoneFallback_portrait:
  "phoneFallback img ''portrait'' tr =
     \<lparr>canvas_width = 680, canvas_height = 1080, realScreenDimensions = Some (380, 780),
      ops = PhoneFrame 340 540 380 780 ''portrait'' #
            drawImageInPhone img 340 540 380 780 tr ''portrait''\<rparr>"
  by (simp add: phoneFallback_def padding_def canvas_sizes Let_def)

lemma phoneFallback_landscape:
  "ori \<noteq> ''portrait'' \<Longrightarrow> phoneFallback img ori tr =
     \<lparr>canvas_width = 1080, canvas_height = 680, realScreenDimensions = Some (780, 380),
      ops = PhoneFrame 540 340 780 380 ori # drawImageInPhone img 540 340 780 380 tr ori\<rparr>"
  by (simp add: phoneFallback_def padding_def canvas_sizes Let_def)

lemma ipadFallback_shape:
  "\<exists>drawn. ipadFallback img tr =
     \<lparr>canvas_width = 1224, canvas_height = 968, realScreenDimensions = Some (1024, 768),
      ops = [FillRect (Color ''#000000'') 100 100 1024 768, drawn]\<rparr> \<and> frameBitmaps [drawn] = []"
  by (simp add: ipadFallback_def padding_def canvas_sizes Let_def)

text \<open>
  C6. The loader never raises; when the asset of a frame path is unavailable and not in
  the cache it answers null and leaves the cache as it was; and the phone and tablet
  renders then still finish, on the fallback screen size (380 by 780 or 780 by 380 for the
  phone, 1024 by 768 for the tablet), with the procedurally drawn frame and no frame
  bitmap.
\<close>

theorem asset_unavailable_falls_back:
  "(\<exists>r. fst (loadDeviceFrame net c framePath) = Inr r) \<and>
   (c framePath = None \<and> assetUnavailable net framePath \<longrightarrow>
      loadDeviceFrame net c framePath = (Inr None, c)) \<and>
   (template_type t = Device \<and> config_device t = ''phone'' \<and>
    c ''/device-frames/iphone-16-pro-max-black.png'' = None \<and>
    assetUnavailable net ''/device-frames/iphone-16-pro-max-black.png'' \<longrightarrow>
      (\<exists>r background rest.
         applyTemplate net c True img t wm tr paid = (Inr (Some r), c) \<and>
         realScreenDimensions r =
           Some (if orientation_of t = ''portrait'' then (380, 780) else (780, 380)) \<and>
         (canvas_width r, canvas_height r) =
           (if orientation_of t = ''portrait'' then (680, 1080) else (1080, 680)) \<and>
         ops r = background #
                 PhoneFrame (canvas_width r / 2) (canvas_height r / 2)
                   (if orientation_of t = ''portrait'' then 380 else 780)
                   (if orientation_of t = ''portrait'' then 780 else 380) (orientation_of t) # rest \<and>
         frameBitmaps (ops r) = [])) \<and>
   (template_type t = Device \<and> config_device t = ''ipad'' \<and>
    c ''/device-frames/ipad-pro-13-landscape-silver.png'' = None \<and>
    assetUnavailable net ''/device-frames/ipad-pro-13-landscape-silver.png'' \<longrightarrow>
      (\<exists>r background rest.
         applyTemplate net c True img t wm tr paid = (Inr (Some r), c) \<and>
         realScreenDimensions r = Some (1024, 768) \<and>
         (canvas_width r, canvas_height r) = (1224, 968) \<and>
         ops r = background # FillRect (Color ''#000000'') 100 100 1024 768 # rest \<and>
         frameBitmaps (ops r) = []))"
proof (intro conjI impI)
  show "\<exists>r. fst (loadDeviceFrame net c framePath) = Inr r"
    by (rule loadDeviceFrame_returns)
next
  assume "c framePath = None \<and> assetUnavailable net framePath"
  then show "loadDeviceFrame net c framePath = (Inr None, c)"
    by (simp add: loadDeviceFrame_unavailable)
next
  let ?p = "''/device-frames/iphone-16-pro-max-black.png''"
  assume a: "template_type t = Device \<and> config_device t = ''phone'' \<and> c ?p = None \<and>
    assetUnavailable net ?p"
  then have l: "loadDeviceFrame net c ?p = (Inr None, c)"
    by (simp add: loadDeviceFrame_unavailable)
  have app: "applyTemplate net c True img t wm tr paid =
      (composite t (phoneFallback img (orientation_of t) tr) wm paid, c)"
    using a l by (simp add: applyTemplate_def)
  show "\<exists>r background rest.
         applyTemplate net c True img t wm tr paid = (Inr (Some r), c) \<and>
         realScreenDimensions r =
           Some (if orientation_of t = ''portrait'' then (380, 780) else (780, 380)) \<and>
         (canvas_width r, canvas_height r) =
           (if orientation_of t = ''portrait'' then (680, 1080) else (1080, 680)) \<and>
         ops r = background #
                 PhoneFrame (canvas_width r / 2) (canvas_height r / 2)
                   (if orientation_of t = ''portrait'' then 380 else 780)
                   (if orientation_of t = ''portrait'' then 780 else 380) (orientation_of t) # rest \<and>
         frameBitmaps (ops r) = []"
  proof (cases "orientation_of t = ''portrait''")
    case True
    then show ?thesis
      using a app
      by (simp add: composite_device phoneFallback_portrait frameBitmaps_addWatermark
          frameBitmaps_drawImageInPhone)
  next
    case False
    then show ?thesis
      using a app
      by (simp add: composite_device phoneFallback_landscape frameBitmaps_addWatermark
          frameBitmaps_drawImageInPhone)
  qed
next
  let ?p = "''/device-frames/ipad-pro-13-landscape-silver.png''"
  assume a: "template_type t = Device \<and> config_device t = ''ipad'' \<and> c ?p = None \<and>
    assetUnavailable net ?p"
  then have l: "loadDeviceFrame net c ?p = (Inr None, c)"
    by (simp add: loadDeviceFrame_unavailable)
  have app: "applyTemplate net c True img t wm tr paid =
      (composite t (ipadFallback img tr) wm paid, c)"
    using a l by (simp add: applyTemplate_def)
  obtain drawn where r: "ipadFallback img tr =
     \<lparr>canvas_width = 1224, canvas_height = 968, realScreenDimensions = Some (1024, 768),
      ops = [FillRect (Color ''#000000'') 100 100 1024 768, drawn]\<rparr>" "frameBitmaps [drawn] = []"
    using ipadFallback_shape by blast
  have "frameBitmaps ([FillRect (Color ''#000000'') 100 100 1024 768, drawn] @
          addWatermark 1224 968 wm paid) = []"
    using r(2) by (simp only: frameBitmaps_addWatermark) simp
  then show "\<exists>r background rest.
         applyTemplate net c True img t wm tr paid = (Inr (Some r), c) \<and>
         realScreenDimensions r = Some (1024, 768) \<and>
         (canvas_width r, canvas_height r) = (1224, 968) \<and>
         ops r = background # FillRect (Color ''#000000'') 100 100 1024 768 # rest \<and>
         frameBitmaps (ops r) = []"
    using a app r(1) by (simp add: composite_device)
qed

theorem asset_unavailable_falls_back_witness:
  "assetUnavailable notFound ''/device-frames/iphone-16-pro-max-black.png'' \<and>
   loadDeviceFrame notFound Map.empty ''/device-frames/iphone-16-pro-max-black.png''
     = (Inr None, Map.empty) \<and>
   map_option realScreenDimensions (projr (fst (applyTemplate notFound Map.empty True
      \<lparr>image_width = 1000, image_height = 2000\<rparr> (deviceTemplate ''phone'' ''landscape'') []
      \<lparr>transform_scale = 1, transform_x = 0, transform_y = 0\<rparr> False))) = Some (Some (780, 380)) \<and>
   assetUnavailable networkDown ''/device-frames/ipad-pro-13-landscape-silver.png'' \<and>
   map_option realScreenDimensions (projr (fst (applyTemplate networkDown Map.empty True
      \<lparr>image_width = 1000, image_height = 2000\<rparr> (deviceTemplate ''ipad'' []) []
      \<lparr>transform_scale = 1, transform_x = 0, transform_y = 0\<rparr> False))) = Some (Some (1024, 768))"
proof -
  let ?phone = "''/device-frames/iphone-16-pro-max-black.png''"
  let ?ipad = "''/device-frames/ipad-pro-13-landscape-silver.png''"
  let ?img = "\<lparr>image_width = 1000, image_height = 2000\<rparr>"
  let ?tr = "\<lparr>transform_scale = 1, transform_x = 0, transform_y = 0\<rparr>"
  have u1: "assetUnavailable notFound ?phone"
    by (simp add: assetUnavailable_def notFound_def)
  have u2: "assetUnavailable networkDown ?ipad"
    by (simp add: assetUnavailable_def networkDown_def)
  have o: "orientation_of (deviceTemplate ''phone'' ''landscape'') \<noteq> ''portrait''"
    by (simp add: orientation_of_def deviceTemplate_def)
  have t: "template_type (deviceTemplate ''phone'' ''landscape'') = Device"
    "config_device (deviceTemplate ''phone'' ''landscape'') = ''phone''"
    "template_type (deviceTemplate ''ipad'' []) = Device"
    "config_device (deviceTemplate ''ipad'' []) = ''ipad''"
    by (simp_all add: deviceTemplate_def)
  from asset_unavailable_falls_back [of notFound Map.empty ?phone
      "deviceTemplate ''phone'' ''landscape''" ?img "[]" ?tr False] u1 o t
  have p: "loadDeviceFrame notFound Map.empty ?phone = (Inr None, Map.empty) \<and>
    map_option realScreenDimensions (projr (fst (applyTemplate notFound Map.empty True
      ?img (deviceTemplate ''phone'' ''landscape'') [] ?tr False))) = Some (Some (780, 380))"
    by auto
  from asset_unavailable_falls_back [of networkDown Map.empty ?ipad
      "deviceTemplate ''ipad'' []" ?img "[]" ?tr False] u2 t
  have i: "map_option realScreenDimensions (projr (fst (applyTemplate networkDown Map.empty True
      ?img (deviceTemplate ''ipad'' []) [] ?tr False))) = Some (Some (1024, 768))"
    by auto
  from u1 u2 p i show ?thesis by blast
qed

text \<open>
  C7. The browser-window template gives a canvas 1400 wide and 915 high, whatever the
  image, the transform, the watermark and the state of the network and of the cache.
\<close>

theorem browser_canvas_size:
  assumes "template_type t = Device" and "config_device t = ''browser''"
  shows "\<exists>r. applyTemplate net c True img t wm tr paid = (Inr (Some r), c) \<and>
             canvas_width r = 1400 \<and> canvas_height r = 915"
  using assms
  by (simp add: applyTemplate_def composite_def drawBackground_def browserWindow_def Let_def
      padding_def set_width_def set_height_def canvas_dim_def)

theorem browser_canvas_size_witness:
  "template_type (deviceTemplate ''browser'' []) = Device \<and>
   config_device (deviceTemplate ''browser'' []) = ''browser'' \<and>
   map_option canvas_width (projr (fst (applyTemplate networkDown Map.empty True
      \<lparr>image_width = 3, image_height = 4000\<rparr> (deviceTemplate ''browser'' []) []
      \<lparr>transform_scale = 2, transform_x = 5, transform_y = 7\<rparr> True))) = Some 1400 \<and>
   map_option canvas_height (projr (fst (applyTemplate networkDown Map.empty True
      \<lparr>image_width = 3, image_height = 4000\<rparr> (deviceTemplate ''browser'' []) []
      \<lparr>transform_scale = 2, transform_x = 5, transform_y = 7\<rparr> True))) = Some 915"
proof -
  have t: "template_type (deviceTemplate ''browser'' []) = Device"
    and d: "config_device (deviceTemplate ''browser'' []) = ''browser''"
    by (simp_all add: deviceTemplate_def)
  from browser_canvas_size [OF t d, of networkDown Map.empty
      "\<lparr>image_width = 3, image_height = 4000\<rparr>" "[]"
      "\<lparr>transform_scale = 2, transform_x = 5, transform_y = 7\<rparr>" True]
  obtain r where "applyTemplate networkDown Map.empty True
      \<lparr>image_width = 3, image_height = 4000\<rparr> (deviceTemplate ''browser'' []) []
      \<lparr>transform_scale = 2, transform_x = 5, transform_y = 7\<rparr> True = (Inr (Some r), Map.empty)"
    and "canvas_width r = 1400" and "canvas_height r = 915" by blast
  with t d show ?thesis by simp
qed

lemma canvas_width_down:
  "map_option canvas_width (projr (fst (applyTemplate networkDown Map.empty True
      \<lparr>image_width = 1000, image_height = 1000\<rparr> (deviceTemplate ''phone'' ''portrait'') []
      \<lparr>transform_scale = 1, transform_x = 0, transform_y = 0\<rparr> False))) = Some 680"
  by (simp add: applyTemplate_def loadDeviceFrame_def loadDeviceFrame_try_def networkDown_def
      deviceTemplate_def composite_def drawBackground_def phoneFallback_def orientation_of_def
      padding_def set_width_def canvas_dim_def Let_def)

lemma canvas_width_up:
  "map_option canvas_width (projr (fst (applyTemplate networkUp Map.empty True
      \<lparr>image_width = 1000, image_height = 1000\<rparr> (deviceTemplate ''phone'' ''portrait'') []
      \<lparr>transform_scale = 1, transform_x = 0, transform_y = 0\<rparr> False))) = Some 534"
  by (simp add: applyTemplate_def loadDeviceFrame_def loadDeviceFrame_try_def networkUp_def
      deviceTemplate_def composite_def drawBackground_def phoneReal_def orientation_of_def
      sampleDescriptor_def padding_def set_width_def canvas_dim_def Let_def)

text \<open>
  C8. The composite is a function of the input tuple and of what the frame loader
  answers. With the network fixed, a second run, started on the cache the first run left,
  gives the same result as the first (the same canvas size, stored screen size and
  drawing calls, or the same exception) and leaves that cache unchanged, whatever the cache
  held before the first run.
\<close>

theorem applyTemplate_repeatable:
  "applyTemplate net (snd (applyTemplate net c ctx img t wm tr paid)) ctx img t wm tr paid
     = applyTemplate net c ctx img t wm tr paid"
proof -
  obtain out c' where r: "applyTemplate net c ctx img t wm tr paid = (out, c')"
    by (cases "applyTemplate net c ctx img t wm tr paid") auto
  then have "applyTemplate net c' ctx img t wm tr paid = (out, c')"
    unfolding applyTemplate_def
    by (auto split: if_splits prod.splits sum.splits option.splits dest: loadDeviceFrame_stable)
  with r show ?thesis by simp
qed

theorem applyTemplate_repeatable_witness:
  "fst (applyTemplate networkUp
     (snd (applyTemplate networkUp Map.empty True \<lparr>image_width = 1000, image_height = 1000\<rparr>
        (deviceTemplate ''phone'' ''portrait'') []
        \<lparr>transform_scale = 1, transform_x = 0, transform_y = 0\<rparr> False))
     True \<lparr>image_width = 1000, image_height = 1000\<rparr>
     (deviceTemplate ''phone'' ''portrait'') []
     \<lparr>transform_scale = 1, transform_x = 0, transform_y = 0\<rparr> False)
   = fst (applyTemplate networkUp Map.empty True \<lparr>image_width = 1000, image_height = 1000\<rparr>
        (deviceTemplate ''phone'' ''portrait'') []
        \<lparr>transform_scale = 1, transform_x = 0, transform_y = 0\<rparr> False)"
  using applyTemplate_repeatable [of networkUp Map.empty True
        "\<lparr>image_width = 1000, image_height = 1000\<rparr>"
        "deviceTemplate ''phone'' ''portrait''" "[]"
        "\<lparr>transform_scale = 1, transform_x = 0, transform_y = 0\<rparr>" False]
  by simp

text \<open>The same input tuple on the same empty cache, once with the frame asset out of
  reach and once with it served: the fallback canvas is 680 wide, the framed one 534.\<close>

theorem output_depends_on_asset_counterexample:
  "fst (applyTemplate networkDown Map.empty True
      \<lparr>image_width = 1000, image_height = 1000\<rparr> (deviceTemplate ''phone'' ''portrait'') []
      \<lparr>transform_scale = 1, transform_x = 0, transform_y = 0\<rparr> False) \<noteq>
   fst (applyTemplate networkUp Map.empty True
      \<lparr>image_width = 1000, image_height = 1000\<rparr> (deviceTemplate ''phone'' ''portrait'') []
      \<lparr>transform_scale = 1, transform_x = 0, transform_y = 0\<rparr> False)"
proof
  assume eq: "fst (applyTemplate networkDown Map.empty True
      \<lparr>image_width = 1000, image_height = 1000\<rparr> (deviceTemplate ''phone'' ''portrait'') []
      \<lparr>transform_scale = 1, transform_x = 0, transform_y = 0\<rparr> False) =
   fst (applyTemplate networkUp Map.empty True
      \<lparr>image_width = 1000, image_height = 1000\<rparr> (deviceTemplate ''phone'' ''portrait'') []
      \<lparr>transform_scale = 1, transform_x = 0, transform_y = 0\<rparr> False)"
  have "Some (680::real) = Some 534"
    using canvas_width_down canvas_width_up unfolding eq by simp
  then show False by simp
qed


section \<open>Properties of the free tier bookkeeping\<close>

lemma digit_not_space: "isDigit c \<Longrightarrow> \<not> isWhiteSpace c"
  by (auto simp: isDigit_def isWhiteSpace_def)

lemma digitsValue_foldl_nonneg:
  "list_all isDigit Z \<Longrightarrow> 0 \<le> a \<Longrightarrow> 0 \<le> foldl (\<lambda>a d. a * 10 + (int d - 48)) a Z"
  by (induction Z arbitrary: a) (auto simp: isDigit_def)

lemma digitsValue_nonneg: "list_all isDigit Z \<Longrightarrow> 0 \<le> digitsValue Z"
  by (simp add: digitsValue_def digitsValue_foldl_nonneg)

lemma takeWhile_all: "list_all P xs \<Longrightarrow> takeWhile P xs = xs"
  by (induction xs) auto

lemma parseInt_digits:
  assumes "list_all isDigit u" "u \<noteq> []"
  shows "parseInt u = Fin (digitsValue u)"
proof -
  obtain c cs where u: "u = c # cs" using assms(2) by (cases u) auto
  with assms(1) have c: "isDigit c" and cs: "list_all isDigit cs" by auto
  have ts: "trimStart u = u" using c u by (simp add: trimStart_def digit_not_space)
  have nosign: "c \<noteq> 45" "c \<noteq> 43" using c by (auto simp: isDigit_def)
  have tw: "takeWhile isDigit u = u" using assms(1) by (rule takeWhile_all)
  show ?thesis
    using ts nosign tw u by (simp add: parseInt_def Let_def)
qed

text \<open>What the module writes into the usage count is a string of digits, and reading it
  back gives the number written.\<close>

lemma String_nat_digits: "list_all isDigit (String_nat n)"
proof (induction n rule: String_nat.induct)
  case (1 n)
  show ?case
  proof (cases "n < 10")
    case True
    then show ?thesis by (subst String_nat.simps) (simp add: isDigit_def)
  next
    case False
    have "n mod 10 < 10" by simp
    then have "isDigit (48 + n mod 10)" unfolding isDigit_def by linarith
    with False 1 show ?thesis by (subst String_nat.simps) simp
  qed
qed

lemma String_nat_nonempty: "String_nat n \<noteq> []"
  by (subst String_nat.simps) simp

lemma digitsValue_snoc: "digitsValue (Z @ [d]) = digitsValue Z * 10 + (int d - 48)"
  by (simp add: digitsValue_def)

lemma digitsValue_String_nat: "digitsValue (String_nat n) = int n"
proof (induction n rule: String_nat.induct)
  case (1 n)
  show ?case
  proof (cases "n < 10")
    case True
    then show ?thesis by (subst String_nat.simps) (simp add: digitsValue_def)
  next
    case False
    with 1 have "digitsValue (String_nat (n div 10)) = int (n div 10)" by simp
    with False show ?thesis
      by (subst String_nat.simps) (simp add: digitsValue_snoc zdiv_int zmod_int)
  qed
qed

lemma parseInt_String_nat: "parseInt (String_nat n) = Fin (int n)"
  by (simp add: parseInt_digits String_nat_digits String_nat_nonempty digitsValue_String_nat)

lemma getUsageCount_wellFormed_count:
  assumes wf: "usesWellFormed ls"
  shows "\<exists>k. 0 \<le> k \<and> fst (getUsageCount now (Browser ls)) = Fin k"
proof (cases "ls USES")
  case None
  then show ?thesis by (simp add: Let_def)
next
  case (Some uses)
  with wf have d: "list_all isDigit uses" by (simp add: usesWellFormed_def)
  show ?thesis
  proof (cases "uses = []")
    case True
    with Some show ?thesis by (simp add: Let_def)
  next
    case False
    with d have "parseInt uses = Fin (digitsValue uses)" by (simp add: parseInt_digits)
    moreover have "0 \<le> digitsValue uses" using d by (rule digitsValue_nonneg)
    ultimately show ?thesis using Some by (simp add: Let_def)
  qed
qed

text \<open>A well-formed usage count stays well-formed under the two functions of the module
  that write it.\<close>

lemma getUsageCount_keeps_wellFormed:
  assumes "usesWellFormed ls" and "getUsageCount now (Browser ls) = (c, Browser ls')"
  shows "usesWellFormed ls'"
  using assms
  by (auto simp: Let_def usesWellFormed_def js_def isDigit_def split: if_splits option.splits)

lemma incrementUsage_keeps_wellFormed:
  assumes "usesWellFormed ls" and "incrementUsage now (Browser ls) = Browser ls'"
  shows "usesWellFormed ls'"
proof -
  obtain c m where g: "getUsageCount now (Browser ls) = (c, Browser m)"
    by (cases "getUsageCount now (Browser ls)") (auto simp: Let_def split: if_splits option.splits)
  obtain k where "0 \<le> k" and "fst (getUsageCount now (Browser ls)) = Fin k"
    using getUsageCount_wellFormed_count [OF assms(1)] by blast
  then have k: "c = Fin k" "0 \<le> k" by (simp_all only: g fst_conv)
  have "ls' = m(USES \<mapsto> String_nat (nat (k + 1)))"
    using assms(2) g k by simp
  then show ?thesis by (simp add: usesWellFormed_def String_nat_digits)
qed

lemma month_2026_11: "getCurrentMonth \<lparr>fullYear = 2026, month = 10\<rparr> = js ''2026-11''"
  by (simp add: getCurrentMonth_def js_def String_nat.simps padStart_def)

text \<open>
  C9. For a paid user the free-export quota is never enforced: whatever usage count is
  stored, \<open>hasHitFreeLimit\<close> answers false and \<open>getRemainingExports\<close> answers Infinity,
  and neither touches the storage.
\<close>

theorem paid_user_quota_never_enforced:
  "isPaidUser h \<Longrightarrow>
     hasHitFreeLimit now h = (False, h) \<and> getRemainingExports now h = (Infinity, h)"
  by (simp add: hasHitFreeLimit_def getRemainingExports_def)

theorem paid_user_quota_never_enforced_witness:
  "isPaidUser (Browser [PAID \<mapsto> js ''true'', USES \<mapsto> js ''7'']) \<and>
   hasHitFreeLimit \<lparr>fullYear = 2026, month = 10\<rparr> (Browser [PAID \<mapsto> js ''true'', USES \<mapsto> js ''7''])
     = (False, Browser [PAID \<mapsto> js ''true'', USES \<mapsto> js ''7'']) \<and>
   getRemainingExports \<lparr>fullYear = 2026, month = 10\<rparr> (Browser [PAID \<mapsto> js ''true'', USES \<mapsto> js ''7''])
     = (Infinity, Browser [PAID \<mapsto> js ''true'', USES \<mapsto> js ''7''])"
proof -
  have paid: "isPaidUser (Browser [PAID \<mapsto> js ''true'', USES \<mapsto> js ''7''])"
    by simp
  from paid paid_user_quota_never_enforced [OF paid, of "\<lparr>fullYear = 2026, month = 10\<rparr>"]
  show ?thesis by blast
qed

text \<open>
  C10. In the browser \<open>getUsageCount\<close> is not read-only. When the stored reset month is
  not the current month (or is absent) it writes the current month, resets the stored
  count to the string 0 and returns 0. Otherwise it leaves the storage as it is and
  returns the stored count as \<open>parseInt\<close> reads it, 0 when the entry is absent or empty.
  The returned count is non-negative whenever the stored count is absent or a string of
  decimal digits.
\<close>

theorem getUsageCount_effect:
  "getUsageCount now (Browser ls) =
     (if ls RESET_DATE = Some (getCurrentMonth now)
      then (case ls USES of
              None \<Rightarrow> Fin 0
            | Some uses \<Rightarrow> if uses = [] then Fin 0 else parseInt uses,
            Browser ls)
      else (Fin 0, Browser (ls(RESET_DATE \<mapsto> getCurrentMonth now, USES \<mapsto> js ''0'')))) \<and>
   (usesWellFormed ls \<longrightarrow> nonNegative (fst (getUsageCount now (Browser ls))))"
proof
  show "getUsageCount now (Browser ls) =
     (if ls RESET_DATE = Some (getCurrentMonth now)
      then (case ls USES of
              None \<Rightarrow> Fin 0
            | Some uses \<Rightarrow> if uses = [] then Fin 0 else parseInt uses,
            Browser ls)
      else (Fin 0, Browser (ls(RESET_DATE \<mapsto> getCurrentMonth now, USES \<mapsto> js ''0''))))"
    by (simp add: Let_def split: option.split)
next
  show "usesWellFormed ls \<longrightarrow> nonNegative (fst (getUsageCount now (Browser ls)))"
  proof
    assume "usesWellFormed ls"
    then obtain k where "0 \<le> k" and "fst (getUsageCount now (Browser ls)) = Fin k"
      using getUsageCount_wellFormed_count by blast
    then show "nonNegative (fst (getUsageCount now (Browser ls)))"
      by (simp only: nonNegative.simps)
  qed
qed

theorem getUsageCount_effect_witness:
  "usesWellFormed [RESET_DATE \<mapsto> js ''2026-11'', USES \<mapsto> js ''2''] \<and>
   getUsageCount \<lparr>fullYear = 2026, month = 10\<rparr>
     (Browser [RESET_DATE \<mapsto> js ''2026-11'', USES \<mapsto> js ''2''])
     = (Fin 2, Browser [RESET_DATE \<mapsto> js ''2026-11'', USES \<mapsto> js ''2'']) \<and>
   usesWellFormed [RESET_DATE \<mapsto> js ''2026-10'', USES \<mapsto> js ''3''] \<and>
   getUsageCount \<lparr>fullYear = 2026, month = 10\<rparr>
     (Browser [RESET_DATE \<mapsto> js ''2026-10'', USES \<mapsto> js ''3''])
     = (Fin 0, Browser [RESET_DATE \<mapsto> js ''2026-11'', USES \<mapsto> js ''0''])"
proof -
  have wf: "usesWellFormed [RESET_DATE \<mapsto> js ''2026-11'', USES \<mapsto> js ''2'']"
    "usesWellFormed [RESET_DATE \<mapsto> js ''2026-10'', USES \<mapsto> js ''3'']"
    by (simp_all add: usesWellFormed_def js_def isDigit_def)
  have p: "parseInt (js ''2'') = Fin 2"
    by (simp add: parseInt_def js_def trimStart_def isWhiteSpace_def isDigit_def digitsValue_def)
  have ne: "js ''2'' \<noteq> []" "js ''2026-10'' \<noteq> js ''2026-11''" by (simp_all add: js_def)
  from getUsageCount_effect [of "\<lparr>fullYear = 2026, month = 10\<rparr>"
      "[RESET_DATE \<mapsto> js ''2026-11'', USES \<mapsto> js ''2'']"]
    getUsageCount_effect [of "\<lparr>fullYear = 2026, month = 10\<rparr>"
      "[RESET_DATE \<mapsto> js ''2026-10'', USES \<mapsto> js ''3'']"] wf ne
  show ?thesis by (simp add: month_2026_11 p)
qed

text \<open>A stored count the module never writes but the storage can hold: the month is
  current, the count is the string -5, and the returned count is \<open>- 5\<close>.\<close>

theorem stored_negative_count_counterexample:
  "\<not> nonNegative (fst (getUsageCount \<lparr>fullYear = 2026, month = 10\<rparr>
       (Browser [RESET_DATE \<mapsto> js ''2026-11'', USES \<mapsto> js ''-5''])))"
proof -
  have p: "parseInt (js ''-5'') = Fin (- 5)"
    by (simp add: parseInt_def js_def trimStart_def isWhiteSpace_def isDigit_def digitsValue_def)
  have ne: "js ''-5'' \<noteq> []" by (simp add: js_def)
  show ?thesis using ne by (simp add: month_2026_11 p Let_def)
qed

end
